theory Spec2Isabelle
  imports Main "HOL-Library.AList"
begin

section \<open>Report parsing (\<open>parse_vulnerabilities\<close>, app.py)\<close>

text \<open>
  Python strings are modelled as \<open>string\<close>, one \<open>char\<close> per code point, which covers
  the code points below 256. \<open>is_space\<close> is the class \<open>\s\<close> of a \<open>str\<close> pattern
  on that range: TAB, LF, VT, FF, CR, the separators 0x1C to 0x1F, SPACE, NEL (0x85) and
  NBSP (0xA0).
\<close>

definition is_space :: "char \<Rightarrow> bool" where
  "is_space c =
     (let n = (of_char c :: nat)
      in (9 \<le> n \<and> n \<le> 13) \<or> (28 \<le> n \<and> n \<le> 32) \<or> n = 133 \<or> n = 160)"

text \<open>
  The pattern of \<open>re.findall\<close> is a sequence of three kinds of items: a literal, the
  capturing group \<open>(.*?)\<close> (lazy, and under \<open>re.DOTALL\<close> the dot matches every
  character, the newline too), and \<open>\s+\<close> (greedy).
\<close>

datatype item = Lit string | Group_lazy | Space_plus

text \<open>
  \<open>r'>> Issue: (.*?)\n\s+Severity: (.*?)\s+Confidence: (.*?)\n\s+Location: (.*?)\n'\<close>
\<close>

definition issue_pattern :: "item list" where
  "issue_pattern =
     [Lit ''>> Issue: '', Group_lazy, Lit ''\<newline>'', Space_plus,
      Lit ''Severity: '', Group_lazy, Space_plus,
      Lit ''Confidence: '', Group_lazy, Lit ''\<newline>'', Space_plus,
      Lit ''Location: '', Group_lazy, Lit ''\<newline>'']"

text \<open>The first alternative that succeeds, in the order the engine tries them.\<close>

fun first_some :: "(nat \<Rightarrow> 'a option) \<Rightarrow> nat list \<Rightarrow> 'a option" where
  "first_some f [] = None"
| "first_some f (k # ks) = (case f k of Some r \<Rightarrow> Some r | None \<Rightarrow> first_some f ks)"

text \<open>
  Backtracking match of a pattern at the start of the input: the captured groups and the
  rest of the input after the match. A lazy group tries to consume 0, 1, 2, ... characters
  and takes the first length for which the rest of the pattern matches; the greedy
  \<open>\s+\<close> tries the whole run of white space first and gives characters back one at a
  time, down to one.
\<close>

fun match_here :: "item list \<Rightarrow> string \<Rightarrow> (string list \<times> string) option" where
  "match_here [] s = Some ([], s)"
| "match_here (Lit l # ps) s =
     (if take (length l) s = l then match_here ps (drop (length l) s) else None)"
| "match_here (Group_lazy # ps) s =
     first_some
       (\<lambda>k. case match_here ps (drop k s) of
              None \<Rightarrow> None
            | Some (gs, r) \<Rightarrow> Some (take k s # gs, r))
       [0 ..< Suc (length s)]"
| "match_here (Space_plus # ps) s =
     first_some (\<lambda>k. match_here ps (drop k s))
       (rev [1 ..< Suc (length (takeWhile is_space s))])"

text \<open>
  \<open>re.findall\<close>: the matches from left to right, without overlap; the search goes on
  where the last match ended. A match of length zero moves the search one character on
  (the issue pattern never matches the empty string, see \<open>match_issue_shorter\<close>).
\<close>

function findall :: "string \<Rightarrow> string list list" where
  "findall s =
     (case match_here issue_pattern s of
        Some (gs, r) \<Rightarrow>
          if length r < length s then gs # findall r
          else (case s of [] \<Rightarrow> [gs] | c # cs \<Rightarrow> gs # findall cs)
      | None \<Rightarrow> (case s of [] \<Rightarrow> [] | c # cs \<Rightarrow> findall cs))"
  by pat_completeness auto
termination
  by (relation "measure length") auto

declare findall.simps [simp del]

datatype error = ValueError | KeyError | CollaboratorError string

text \<open>
  The f-string of the list comprehension; the loop header unpacks each match into four
  names, which raises ValueError on any other number of groups.
\<close>

fun format_issue :: "string list \<Rightarrow> error + string" where
  "format_issue [desc, sev, conf, loc] =
     Inr (''Issue: '' @ desc @ ''\<newline>Severity: '' @ sev @ '' | Confidence: '' @ conf
          @ '' | Location: '' @ loc)"
| "format_issue gs = Inl ValueError"

fun format_all :: "string list list \<Rightarrow> error + string list" where
  "format_all [] = Inr []"
| "format_all (gs # rest) =
     (case format_issue gs of
        Inl e \<Rightarrow> Inl e
      | Inr x \<Rightarrow> (case format_all rest of Inl e \<Rightarrow> Inl e | Inr xs \<Rightarrow> Inr (x # xs)))"

definition parse_vulnerabilities :: "string \<Rightarrow> error + string list" where
  "parse_vulnerabilities vulnerability_report = format_all (findall vulnerability_report)"

section \<open>Submission history (\<open>show_recent_codes_on_main\<close>, app.py)\<close>

text \<open>
  A \<open>datetime.date\<close> is its proleptic Gregorian ordinal (\<open>date.toordinal\<close>), so
  that comparing dates is comparing integers and \<open>d - timedelta(days=n)\<close> is \<open>d - n\<close>.
  \<open>ymd2ord\<close> is the ordinal of a calendar date, as the datetime module computes it.
\<close>

type_synonym date = int

definition is_leap :: "int \<Rightarrow> bool" where
  "is_leap y = (y mod 4 = 0 \<and> (y mod 100 \<noteq> 0 \<or> y mod 400 = 0))"

definition days_before_year :: "int \<Rightarrow> int" where
  "days_before_year y = (y - 1) * 365 + (y - 1) div 4 - (y - 1) div 100 + (y - 1) div 400"

definition days_in_month :: "int \<Rightarrow> int \<Rightarrow> int" where
  "days_in_month y m =
     (if m = 2 then (if is_leap y then 29 else 28)
      else if m = 4 \<or> m = 6 \<or> m = 9 \<or> m = 11 then 30 else 31)"

definition days_before_month :: "int \<Rightarrow> int \<Rightarrow> int" where
  "days_before_month y m = sum_list (map (days_in_month y) [1 .. m - 1])"

definition ymd2ord :: "int \<Rightarrow> int \<Rightarrow> int \<Rightarrow> date" where
  "ymd2ord y m d = days_before_year y + days_before_month y m + d"

text \<open>A naive \<open>datetime.datetime\<close>: a date and a time of day.\<close>

record datetime =
  dt_date :: date
  dt_hour :: nat
  dt_minute :: nat
  dt_second :: nat
  dt_microsecond :: nat

text \<open>\<open>datetime.combine(d, datetime.min.time())\<close> and \<open>datetime.combine(d, datetime.max.time())\<close>\<close>

definition combine_min :: "date \<Rightarrow> datetime" where
  "combine_min d =
     \<lparr>dt_date = d, dt_hour = 0, dt_minute = 0, dt_second = 0, dt_microsecond = 0\<rparr>"

definition combine_max :: "date \<Rightarrow> datetime" where
  "combine_max d =
     \<lparr>dt_date = d, dt_hour = 23, dt_minute = 59, dt_second = 59, dt_microsecond = 999999\<rparr>"

text \<open>
  \<open>datetime.strptime(str(created_at), '%Y-%m-%d %H:%M:%S.%f').date()\<close>:
  \<open>str\<close> of a datetime leaves the fraction out when the microsecond is 0, and then the
  format, which requires \<open>.%f\<close>, does not match and \<open>strptime\<close> raises ValueError.
  Otherwise the date read back is the date of \<open>created_at\<close>.
\<close>

definition strptime_date :: "datetime \<Rightarrow> error + date" where
  "strptime_date created_at =
     (if dt_microsecond created_at = 0 then Inl ValueError else Inr (dt_date created_at))"

text \<open>\<open>str.lower\<close> on the code points below 256, and \<open>a in b\<close> on strings.\<close>

definition lower_char :: "char \<Rightarrow> char" where
  "lower_char c =
     (let n = (of_char c :: nat)
      in if (65 \<le> n \<and> n \<le> 90) \<or> (192 \<le> n \<and> n \<le> 222 \<and> n \<noteq> 215)
         then char_of (n + 32) else c)"

definition lower :: "string \<Rightarrow> string" where
  "lower s = map lower_char s"

fun str_in :: "string \<Rightarrow> string \<Rightarrow> bool" where
  "str_in q [] = (q = [])"
| "str_in q (c # cs) = (take (length q) (c # cs) = q \<or> str_in q cs)"

text \<open>A row of \<open>get_recent_codes\<close>: title, input code, output code (or None), created_at.\<close>

type_synonym submission = "string \<times> string \<times> string option \<times> datetime"

datatype bucket = Today | Yesterday | Previous_7_Days | Previous_30_Days | Older

text \<open>
  The dictionary \<open>grouped_codes\<close> has the five labels as keys from the start, each with a
  list; the loop only appends.
\<close>

type_synonym grouped = "bucket \<Rightarrow> submission list"

definition grouped_empty :: grouped where
  "grouped_empty = (\<lambda>b. [])"

text \<open>The condition of line 109 and 110: the text filter and the date filter.\<close>

definition keeps :: "string \<Rightarrow> datetime option \<Rightarrow> datetime option \<Rightarrow> string \<Rightarrow> string \<Rightarrow> date \<Rightarrow> bool" where
  "keeps search_query start_date end_date title input_code submission_date =
     ((search_query = [] \<or> str_in (lower search_query) (lower title)
         \<or> str_in (lower search_query) (lower input_code))
      \<and> ((case start_date of None \<Rightarrow> True | Some sd \<Rightarrow> submission_date \<ge> dt_date sd)
         \<and> (case end_date of None \<Rightarrow> True | Some ed \<Rightarrow> submission_date \<le> dt_date ed)))"

text \<open>The if/elif ladder of lines 112 to 126.\<close>

definition ladder :: "date \<Rightarrow> date \<Rightarrow> date \<Rightarrow> date \<Rightarrow> date \<Rightarrow> bucket" where
  "ladder today yesterday last_7_days last_30_days submission_date =
     (if submission_date = today then Today
      else if submission_date = yesterday then Yesterday
      else if last_7_days \<le> submission_date \<and> submission_date < today then Previous_7_Days
      else if last_30_days \<le> submission_date \<and> submission_date < last_7_days
        then Previous_30_Days
      else Older)"

text \<open>The loop over \<open>recent_codes\<close>; a timestamp that does not parse ends it with the error.\<close>

fun group_loop ::
  "string \<Rightarrow> datetime option \<Rightarrow> datetime option \<Rightarrow> date \<Rightarrow> date \<Rightarrow> date \<Rightarrow> date
     \<Rightarrow> submission list \<Rightarrow> grouped \<Rightarrow> error + grouped" where
  "group_loop search_query start_date end_date today yesterday last_7_days last_30_days
     [] grouped_codes = Inr grouped_codes"
| "group_loop search_query start_date end_date today yesterday last_7_days last_30_days
     ((title, input_code, output_code, created_at) # rest) grouped_codes =
     (case strptime_date created_at of
        Inl e \<Rightarrow> Inl e
      | Inr submission_date \<Rightarrow>
          if keeps search_query start_date end_date title input_code submission_date
          then
            (let b = ladder today yesterday last_7_days last_30_days submission_date
             in group_loop search_query start_date end_date today yesterday last_7_days
                  last_30_days rest
                  (grouped_codes(b := grouped_codes b @ [(title, input_code, output_code, created_at)])))
          else group_loop search_query start_date end_date today yesterday last_7_days
                 last_30_days rest grouped_codes)"

text \<open>
  What the page shows: the notice for an empty history, or the groups that are not empty,
  in the order of the dictionary, each with its rows.
\<close>

datatype history_view = No_recent_submissions | Groups "(bucket \<times> submission list) list"

text \<open>
  \<open>now_1\<close> and \<open>now_2\<close> are the dates of the two readings of \<open>datetime.now()\<close> on
  line 93, the first for \<open>today\<close> and the second for \<open>yesterday\<close>; \<open>recent_codes\<close> is
  what \<open>user_model.get_recent_codes(user_id)\<close> returned.
\<close>

definition group_codes ::
  "string \<Rightarrow> date option \<Rightarrow> date option \<Rightarrow> date \<Rightarrow> date \<Rightarrow> submission list \<Rightarrow> error + grouped" where
  "group_codes search_query start_input end_input now_1 now_2 recent_codes =
     (let start_date = map_option combine_min start_input;
          end_date = map_option combine_max end_input;
          today = now_1;
          yesterday = now_2 - 1;
          last_7_days = today - 7;
          last_30_days = today - 30
      in group_loop search_query start_date end_date today yesterday last_7_days last_30_days
           recent_codes grouped_empty)"

definition show_recent_codes_on_main ::
  "string \<Rightarrow> date option \<Rightarrow> date option \<Rightarrow> date \<Rightarrow> date \<Rightarrow> submission list
     \<Rightarrow> error + history_view" where
  "show_recent_codes_on_main search_query start_input end_input now_1 now_2 recent_codes =
     (if recent_codes = [] then Inr No_recent_submissions
      else
        (case group_codes search_query start_input end_input now_1 now_2 recent_codes of
           Inl e \<Rightarrow> Inl e
         | Inr grouped_codes \<Rightarrow>
             Inr (Groups (filter (\<lambda>(group, codes). codes \<noteq> [])
                    (map (\<lambda>group. (group, grouped_codes group))
                       [Today, Yesterday, Previous_7_Days, Previous_30_Days, Older])))))"

section \<open>Session state and the page of a logged-in user (\<open>main\<close>, app.py)\<close>

text \<open>
  The keys of \<open>st.session_state\<close> that the page reads and writes (\<open>session_vars\<close>, and
  \<open>user\<close>, which the login sets). \<open>selected_issues\<close> is a dictionary from checkbox
  key to bool, kept as an association list in insertion order with one pair per key.
\<close>

record session_state =
  logged_in :: bool
  vulnerability_report :: string
  last_user_code :: string
  fixed_code :: string
  issue_resolved :: bool
  user_id :: "int option"
  user :: "string option"
  selected_issues :: "(string \<times> bool) list"
  issues_selected :: bool
  show_resolve_button :: bool
  scan_complete :: bool

definition session_vars :: session_state where
  "session_vars =
     \<lparr>logged_in = False, vulnerability_report = [], last_user_code = [], fixed_code = [],
      issue_resolved = False, user_id = None, user = None, selected_issues = [],
      issues_selected = False, show_resolve_button = False, scan_complete = False\<rparr>"

text \<open>\<open>any(d.values())\<close> on a dictionary of bools.\<close>

definition any_values :: "(string \<times> bool) list \<Rightarrow> bool" where
  "any_values d = list_ex snd d"

text \<open>The \<open>on_change\<close> callback of the checkboxes.\<close>

definition update_issues_selected :: "session_state \<Rightarrow> session_state" where
  "update_issues_selected s =
     (let s1 = s\<lparr>issues_selected := any_values (selected_issues s)\<rparr>
      in s1\<lparr>show_resolve_button := issues_selected s1\<rparr>)"

text \<open>\<open>f"issue_{i}"\<close>: the decimal digits of the index after the prefix.\<close>

definition digit :: "nat \<Rightarrow> char" where
  "digit n = ''0123456789'' ! n"

fun str_nat :: "nat \<Rightarrow> string" where
  "str_nat n =
     (if n < 10 then [digit n]
      else str_nat (n div 10) @ [digit (n mod 10)])"

declare str_nat.simps [simp del]

definition checkbox_key :: "nat \<Rightarrow> string" where
  "checkbox_key i = ''issue_'' @ str_nat i"

text \<open>\<open>enumerate(xs)\<close> and \<open>sep.join(xs)\<close>\<close>

definition enumerate_list :: "'a list \<Rightarrow> (nat \<times> 'a) list" where
  "enumerate_list xs = zip [0 ..< length xs] xs"

fun join :: "string \<Rightarrow> string list \<Rightarrow> string" where
  "join sep [] = []"
| "join sep [x] = x"
| "join sep (x # y # ys) = x @ sep @ join sep (y # ys)"

text \<open>
  What the framework and the user give to one run of the script: the widgets' values,
  the clock, and the collaborators' answers. \<open>checkbox label value key\<close> is what
  \<open>st.checkbox(label, value=value, key=key, ...)\<close> returns.
\<close>

datatype menu_option = Home | Recent_Codes | Logout

record inputs =
  option_menu :: menu_option
  title_input :: string
  user_code_input :: string
  check_button :: bool
  resolve_button :: bool
  checkbox :: "string \<Rightarrow> bool \<Rightarrow> string \<Rightarrow> bool"
  search_input :: string
  start_input :: "date option"
  end_input :: "date option"
  now_1 :: date
  now_2 :: date
  scan_vulnerabilities :: "string \<Rightarrow> error + string"
  rewrite_code_with_openai :: "string \<Rightarrow> string \<Rightarrow> error + string"
  save_code :: "int \<Rightarrow> string \<Rightarrow> string \<Rightarrow> string option \<Rightarrow> error option"
  get_recent_codes :: "int option \<Rightarrow> error + submission list"

text \<open>
  What one run of the script does besides changing the session state: the exception that
  ended it (if any), whether it ended in \<open>st.rerun()\<close>, what it displayed (the history,
  the issues with their checkboxes, the resolve button, and the fixed code with the
  report), and the calls it made to the rewrite and the persistence collaborators, in
  order (\<open>save_calls\<close> holds the calls that returned).
\<close>

record effects =
  raised :: "error option"
  rerun :: bool
  history_shown :: "history_view option"
  issues_shown :: "string list"
  resolve_button_shown :: bool
  rewrite_calls :: "(string \<times> string) list"
  save_calls :: "(int \<times> string \<times> string \<times> string option) list"
  result_shown :: "(string \<times> string) option"

definition no_effects :: effects where
  "no_effects =
     \<lparr>raised = None, rerun = False, history_shown = None, issues_shown = [],
      resolve_button_shown = False, rewrite_calls = [], save_calls = [],
      result_shown = None\<rparr>"

type_synonym run = "session_state \<times> effects"

text \<open>A block of the script runs unless an exception or \<open>st.rerun()\<close> has ended the run.\<close>

definition running :: "run \<Rightarrow> bool" where
  "running r = (raised (snd r) = None \<and> \<not> rerun (snd r))"

definition raise :: "error \<Rightarrow> run \<Rightarrow> run" where
  "raise e r = (fst r, (snd r)\<lparr>raised := Some e\<rparr>)"

text \<open>
  \<open>user_model.save_code(user_id, title, input_code, output_code)\<close>, under
  \<open>if user_id:\<close>, which holds for an id that is neither None nor 0.
\<close>

definition save_if_user :: "inputs \<Rightarrow> string \<Rightarrow> string \<Rightarrow> string option \<Rightarrow> run \<Rightarrow> run" where
  "save_if_user inp title input_code output_code r =
     (case user_id (fst r) of
        None \<Rightarrow> r
      | Some n \<Rightarrow>
          if n = 0 then r
          else
            (case save_code inp n title input_code output_code of
               Some e \<Rightarrow> raise e r
             | None \<Rightarrow>
                 (fst r, (snd r)\<lparr>save_calls :=
                    save_calls (snd r) @ [(n, title, input_code, output_code)]\<rparr>)))"

text \<open>Lines 181 to 202: the scan.\<close>

definition scan_block :: "inputs \<Rightarrow> run \<Rightarrow> run" where
  "scan_block inp r =
     (let s = fst r in
      if (check_button inp \<or> \<not> scan_complete s)
         \<and> user_code_input inp \<noteq> [] \<and> title_input inp \<noteq> []
      then
        (let s1 = s\<lparr>vulnerability_report := [], selected_issues := [], scan_complete := False\<rparr>;
             s2 = s1\<lparr>last_user_code := user_code_input inp\<rparr>
         in case scan_vulnerabilities inp (user_code_input inp) of
              Inl e \<Rightarrow> raise e (s2, snd r)
            | Inr result \<Rightarrow>
                save_if_user inp (title_input inp) (user_code_input inp) None
                  (s2\<lparr>vulnerability_report := result, scan_complete := True,
                       issue_resolved := False\<rparr>, snd r))
      else r)"

text \<open>
  Lines 212 to 221: the loop over the issues. Each step gives the key an entry if it has
  none, then stores what the checkbox returns for the entry's value.
\<close>

definition ensure :: "string \<Rightarrow> (string \<times> bool) list \<Rightarrow> (string \<times> bool) list" where
  "ensure k d = (if map_of d k = None then AList.update k False d else d)"

fun checkbox_loop ::
  "(string \<Rightarrow> bool \<Rightarrow> string \<Rightarrow> bool) \<Rightarrow> (nat \<times> string) list \<Rightarrow> (string \<times> bool) list
     \<Rightarrow> error option \<times> (string \<times> bool) list" where
  "checkbox_loop cb [] d = (None, d)"
| "checkbox_loop cb ((i, issue) # rest) d =
     (let k = checkbox_key i; d1 = ensure k d
      in case map_of d1 k of
           None \<Rightarrow> (Some KeyError, d1)
         | Some v \<Rightarrow> checkbox_loop cb rest (AList.update k (cb issue v k) d1))"

text \<open>Lines 205 to 221: the report and its checkboxes.\<close>

definition display_block :: "inputs \<Rightarrow> run \<Rightarrow> run" where
  "display_block inp r =
     (let s = fst r in
      if vulnerability_report s \<noteq> [] then
        (case parse_vulnerabilities (vulnerability_report s) of
           Inl e \<Rightarrow> raise e r
         | Inr issues \<Rightarrow>
             (case checkbox_loop (checkbox inp) (enumerate_list issues) (selected_issues s) of
                (err, d) \<Rightarrow>
                  (s\<lparr>selected_issues := d\<rparr>,
                   (snd r)\<lparr>issues_shown := issues, raised := err\<rparr>)))
      else r)"

text \<open>
  Lines 226 to 229: the generator under \<open>join\<close>; a key that is missing from
  \<open>selected_issues\<close> raises KeyError.
\<close>

fun selected_texts :: "(string \<times> bool) list \<Rightarrow> (nat \<times> string) list \<Rightarrow> error + string list" where
  "selected_texts d [] = Inr []"
| "selected_texts d ((i, issue) # rest) =
     (case map_of d (checkbox_key i) of
        None \<Rightarrow> Inl KeyError
      | Some v \<Rightarrow>
          (case selected_texts d rest of
             Inl e \<Rightarrow> Inl e
           | Inr xs \<Rightarrow> Inr (if v then issue # xs else xs)))"

definition selected_issues_text :: "session_state \<Rightarrow> error + string" where
  "selected_issues_text s =
     (case parse_vulnerabilities (vulnerability_report s) of
        Inl e \<Rightarrow> Inl e
      | Inr issues \<Rightarrow>
          (case selected_texts (selected_issues s) (enumerate_list issues) of
             Inl e \<Rightarrow> Inl e
           | Inr xs \<Rightarrow> Inr (join ''\<newline>'' xs)))"

text \<open>Lines 224 to 240: the resolve button and what a click on it does.\<close>

definition resolve_block :: "inputs \<Rightarrow> run \<Rightarrow> run" where
  "resolve_block inp r =
     (let s = fst r in
      if show_resolve_button s \<and> issues_selected s then
        (let r1 = (s, (snd r)\<lparr>resolve_button_shown := True\<rparr>) in
         if resolve_button inp then
           (case selected_issues_text s of
              Inl e \<Rightarrow> raise e r1
            | Inr text \<Rightarrow>
                (let r2 = (s, (snd r1)\<lparr>rewrite_calls :=
                             rewrite_calls (snd r1) @ [(last_user_code s, text)]\<rparr>)
                 in case rewrite_code_with_openai inp (last_user_code s) text of
                      Inl e \<Rightarrow> raise e r2
                    | Inr code \<Rightarrow>
                        save_if_user inp (title_input inp) (last_user_code s) (Some code)
                          (s\<lparr>fixed_code := code, issue_resolved := True\<rparr>, snd r2)))
         else r1)
      else r)"

text \<open>Lines 242 to 248: the fixed code and the report it answers are displayed.\<close>

definition result_block :: "run \<Rightarrow> run" where
  "result_block r =
     (let s = fst r in
      if issue_resolved s
      then (s, (snd r)\<lparr>result_shown := Some (fixed_code s, vulnerability_report s)\<rparr>)
      else r)"

text \<open>Line 169: the history page.\<close>

definition history_block :: "inputs \<Rightarrow> run \<Rightarrow> run" where
  "history_block inp r =
     (case get_recent_codes inp (user_id (fst r)) of
        Inl e \<Rightarrow> raise e r
      | Inr recent_codes \<Rightarrow>
          (case show_recent_codes_on_main (search_input inp) (start_input inp) (end_input inp)
                  (now_1 inp) (now_2 inp) recent_codes of
             Inl e \<Rightarrow> raise e r
           | Inr view \<Rightarrow> (fst r, (snd r)\<lparr>history_shown := Some view\<rparr>)))"

text \<open>
  One run of the script for a logged-in session: the \<open>else\<close> branch of \<open>main\<close>
  (lines 153 to 248). The blocks under \<open>if option == "Home"\<close> run one after the other
  as long as none of them raises. The welcome line of the sidebar and the style sheet are
  display only and are left out.
\<close>

definition then_block :: "(run \<Rightarrow> run) \<Rightarrow> run \<Rightarrow> run" where
  "then_block f r = (if running r then f r else r)"

definition main :: "inputs \<Rightarrow> session_state \<Rightarrow> run" where
  "main inp s =
     (case option_menu inp of
        Logout \<Rightarrow>
          (s\<lparr>logged_in := False, user := None, user_id := None\<rparr>, no_effects\<lparr>rerun := True\<rparr>)
      | Recent_Codes \<Rightarrow> history_block inp (s, no_effects)
      | Home \<Rightarrow>
          then_block result_block
            (then_block (resolve_block inp)
               (then_block (display_block inp) (scan_block inp (s, no_effects)))))"

text \<open>
  One interaction: when the user has changed a checkbox, the framework calls its
  \<open>on_change\<close> callback before it runs the script again.
\<close>

definition interaction :: "bool \<Rightarrow> inputs \<Rightarrow> session_state \<Rightarrow> run" where
  "interaction checkbox_changed inp s =
     main inp (if checkbox_changed then update_issues_selected s else s)"

section \<open>Definitions for the statements\<close>

subsection \<open>Submission history\<close>

definition sub_title :: "submission \<Rightarrow> string" where
  "sub_title sub = fst sub"

definition sub_input :: "submission \<Rightarrow> string" where
  "sub_input sub = fst (snd sub)"

definition sub_created :: "submission \<Rightarrow> datetime" where
  "sub_created sub = snd (snd (snd sub))"

text \<open>The calendar date of a submission.\<close>

definition sub_date :: "submission \<Rightarrow> date" where
  "sub_date sub = dt_date (sub_created sub)"

text \<open>
  The input contract of the history page: every timestamp carries a fraction of a second,
  so that it parses.
\<close>

definition parseable :: "submission list \<Rightarrow> bool" where
  "parseable rows = list_all (\<lambda>sub. dt_microsecond (sub_created sub) \<noteq> 0) rows"

text \<open>The loop's test on a row, and the row's place in the ladder.\<close>

definition kept_in ::
  "string \<Rightarrow> datetime option \<Rightarrow> datetime option \<Rightarrow> date \<Rightarrow> date \<Rightarrow> date \<Rightarrow> date \<Rightarrow> bucket
     \<Rightarrow> submission \<Rightarrow> bool" where
  "kept_in q sd ed t y l7 l30 b sub =
     (keeps q sd ed (sub_title sub) (sub_input sub) (sub_date sub)
      \<and> ladder t y l7 l30 (sub_date sub) = b)"

text \<open>A submission survives the filters of a page with these inputs.\<close>

definition survives :: "string \<Rightarrow> date option \<Rightarrow> date option \<Rightarrow> submission \<Rightarrow> bool" where
  "survives q start_day end_day sub =
     keeps q (map_option combine_min start_day) (map_option combine_max end_day)
       (sub_title sub) (sub_input sub) (sub_date sub)"






fun in_window :: "date \<Rightarrow> bucket \<Rightarrow> date \<Rightarrow> bool" where
  "in_window today Today d = (d = today)"
| "in_window today Yesterday d = (d = today - 1)"
| "in_window today Previous_7_Days d = (today - 7 \<le> d \<and> d < today)"
| "in_window today Previous_30_Days d = (today - 30 \<le> d \<and> d < today - 7)"
| "in_window today Older d = True"

definition bucket_order :: "bucket list" where
  "bucket_order = [Today, Yesterday, Previous_7_Days, Previous_30_Days, Older]"

definition first_matching :: "date \<Rightarrow> date \<Rightarrow> bucket option" where
  "first_matching today d = find (\<lambda>b. in_window today b d) bucket_order"

text \<open>The five submissions of the grouping scenario, each at 10:30:00.000001.\<close>

definition at_date :: "string \<Rightarrow> date \<Rightarrow> submission" where
  "at_date name d =
     (name, ''print(1)'', None,
      \<lparr>dt_date = d, dt_hour = 10, dt_minute = 30, dt_second = 0, dt_microsecond = 1\<rparr>)"

definition scenario :: "submission list" where
  "scenario =
     [at_date ''a'' (ymd2ord 2024 6 15), at_date ''b'' (ymd2ord 2024 6 14),
      at_date ''c'' (ymd2ord 2024 6 10), at_date ''d'' (ymd2ord 2024 5 20),
      at_date ''e'' (ymd2ord 2024 1 1)]"

text \<open>
  A history for the filters: two submissions of 2024-06-14, its first and its last
  microsecond, that have \<open>print\<close> in the title or in the code, in other letter cases; one
  of that day without it; and one of the last microsecond of the day before and one of
  the first of the day after, both with it.
\<close>

definition filter_rows :: "submission list" where
  "filter_rows =
     [(''Print Demo'', ''x = 1'', None,
       \<lparr>dt_date = ymd2ord 2024 6 14, dt_hour = 0, dt_minute = 0, dt_second = 0,
        dt_microsecond = 1\<rparr>),
      (''second'', ''y = pRiNt(2)'', None,
       \<lparr>dt_date = ymd2ord 2024 6 14, dt_hour = 23, dt_minute = 59, dt_second = 59,
        dt_microsecond = 999999\<rparr>),
      (''third'', ''pass'', None,
       \<lparr>dt_date = ymd2ord 2024 6 14, dt_hour = 10, dt_minute = 30, dt_second = 0,
        dt_microsecond = 1\<rparr>),
      (''print'', ''z = 3'', None,
       \<lparr>dt_date = ymd2ord 2024 6 13, dt_hour = 23, dt_minute = 59, dt_second = 59,
        dt_microsecond = 999999\<rparr>),
      (''fifth'', ''print(5)'', None,
       \<lparr>dt_date = ymd2ord 2024 6 15, dt_hour = 0, dt_minute = 0, dt_second = 0,
        dt_microsecond = 1\<rparr>)]"

subsection \<open>Report parsing\<close>

text \<open>The number of groups of a pattern, and the number of characters its literals need.\<close>

definition groups_of :: "item list \<Rightarrow> nat" where
  "groups_of ps = length (filter (\<lambda>p. p = Group_lazy) ps)"

fun lit_length :: "item \<Rightarrow> nat" where
  "lit_length (Lit l) = length l"
| "lit_length p = 0"

definition lits_of :: "item list \<Rightarrow> nat" where
  "lits_of ps = sum_list (map lit_length ps)"

subsection \<open>Selection state\<close>

text \<open>
  What an entry of the selection reads as, with False for a key that has no entry; the
  indices selected among the first \<open>n\<close>, ascending; the text of the specification for
  the rewrite collaborator; and the condition under which a run of the script scans.
\<close>

definition entry_or_false :: "(string \<times> bool) list \<Rightarrow> string \<Rightarrow> bool" where
  "entry_or_false d k = (case map_of d k of None \<Rightarrow> False | Some v \<Rightarrow> v)"

definition selected_indices :: "(string \<times> bool) list \<Rightarrow> nat \<Rightarrow> nat list" where
  "selected_indices d n = filter (\<lambda>i. map_of d (checkbox_key i) = Some True) [0 ..< n]"

definition instructions :: "(string \<times> bool) list \<Rightarrow> string list \<Rightarrow> string" where
  "instructions d issues =
     join ''\<newline>'' (map (\<lambda>i. issues ! i) (selected_indices d (length issues)))"

definition scan_starts :: "inputs \<Rightarrow> session_state \<Rightarrow> bool" where
  "scan_starts inp s =
     ((check_button inp \<or> \<not> scan_complete s)
      \<and> user_code_input inp \<noteq> [] \<and> title_input inp \<noteq> [])"

text \<open>
  Every entry of the selection belongs to an issue of the report in the session and holds
  what the checkbox of that issue returns for the default False.
\<close>

definition fresh_selection :: "inputs \<Rightarrow> session_state \<Rightarrow> bool" where
  "fresh_selection inp s =
     (\<forall>k v. (k, v) \<in> set (selected_issues s) \<longrightarrow>
        (\<exists>issues i. parse_vulnerabilities (vulnerability_report s) = Inr issues
           \<and> i < length issues \<and> k = checkbox_key i
           \<and> v = checkbox inp (issues ! i) False k))"

subsection \<open>A concrete session\<close>

text \<open>
  A report with two issues, a clean report, a logged-in session as the login leaves it,
  and the inputs of a run on the Home page in which the user clicks nothing: the scanner
  answers with the report of two issues, the rewrite with a fixed text, every save
  succeeds, and every checkbox returns the value it is given.
\<close>

definition report_two :: string where
  "report_two =
     ''>> Issue: exec used\<newline>   Severity: Medium   Confidence: High\<newline>   Location: app.py:3\<newline>'' @
     ''>> Issue: hardcoded password\<newline>   Severity: Low   Confidence: Medium\<newline>   Location: app.py:7\<newline>''"

definition issues_two :: "string list" where
  "issues_two =
     [''Issue: exec used\<newline>Severity: Medium | Confidence: High | Location: app.py:3'',
      ''Issue: hardcoded password\<newline>Severity: Low | Confidence: Medium | Location: app.py:7'']"

definition report_clean :: string where
  "report_clean = ''No issues identified.\<newline>''"

definition logged_in_state :: session_state where
  "logged_in_state = session_vars\<lparr>logged_in := True, user := Some ''u'', user_id := Some 1\<rparr>"

definition idle_inputs :: inputs where
  "idle_inputs =
     \<lparr>option_menu = Home, title_input = ''t'', user_code_input = ''exec(x)'',
      check_button = False, resolve_button = False,
      checkbox = (\<lambda>label value key. value),
      search_input = [], start_input = None, end_input = None,
      now_1 = ymd2ord 2024 6 15, now_2 = ymd2ord 2024 6 15,
      scan_vulnerabilities = (\<lambda>code. Inr report_two),
      rewrite_code_with_openai = (\<lambda>code instructions. Inr ''pass''),
      save_code = (\<lambda>uid title input_code output_code. None),
      get_recent_codes = (\<lambda>uid. Inr [])\<rparr>"

text \<open>The same inputs with a rewrite collaborator that raises.\<close>

definition failing_inputs :: inputs where
  "failing_inputs =
     idle_inputs\<lparr>resolve_button := True,
       rewrite_code_with_openai := (\<lambda>code instructions. Inl (CollaboratorError ''rewrite''))\<rparr>"

text \<open>A session that shows the report of two issues with the first one selected.\<close>

definition selected_state :: session_state where
  "selected_state =
     logged_in_state\<lparr>vulnerability_report := report_two, last_user_code := ''exec(x)'',
       selected_issues := [(''issue_0'', True), (''issue_1'', False)],
       issues_selected := True, show_resolve_button := True, scan_complete := True\<rparr>"

text \<open>
  A click on resolve, and a session in which both issues are selected, the second one
  having been ticked first.
\<close>

definition resolve_inputs :: inputs where
  "resolve_inputs = idle_inputs\<lparr>resolve_button := True\<rparr>"

definition both_selected_state :: session_state where
  "both_selected_state =
     selected_state\<lparr>selected_issues := [(''issue_1'', True), (''issue_0'', True)]\<rparr>"

text \<open>
  A click on the scan button; a session whose selection still has the entry of a sixth
  issue of an earlier report; a scan that comes back clean; and the ticking of the first
  and of the second checkbox.
\<close>

definition scan_inputs :: inputs where
  "scan_inputs = idle_inputs\<lparr>check_button := True\<rparr>"

definition stale_state :: session_state where
  "stale_state =
     selected_state\<lparr>selected_issues := [(''issue_0'', True), (''issue_5'', True)]\<rparr>"

definition clean_scan_inputs :: inputs where
  "clean_scan_inputs =
     idle_inputs\<lparr>check_button := True, scan_vulnerabilities := (\<lambda>code. Inr report_clean)\<rparr>"

definition tick_first_inputs :: inputs where
  "tick_first_inputs = idle_inputs\<lparr>checkbox := (\<lambda>label value key. key = ''issue_0'' \<or> value)\<rparr>"

definition tick_second_inputs :: inputs where
  "tick_second_inputs = idle_inputs\<lparr>checkbox := (\<lambda>label value key. key = ''issue_1'' \<or> value)\<rparr>"

text \<open>
  Four interactions of a session after login: the first scan, a tick on the first issue,
  a tick on the second issue, and a new scan that comes back clean.
\<close>

definition run_1 :: run where
  "run_1 = interaction False scan_inputs logged_in_state"

definition run_2 :: run where
  "run_2 = interaction True tick_first_inputs (fst run_1)"

definition run_3 :: run where
  "run_3 = interaction True tick_second_inputs (fst run_2)"

definition run_4 :: run where
  "run_4 = interaction False clean_scan_inputs (fst run_3)"

subsection \<open>Occurrences of the issue pattern\<close>

text \<open>
  The language of a pattern, said without the engine: a literal is itself, a group is any
  text, \<open>\s+\<close> is a run of one or more white-space characters. A report has an occurrence
  of the issue pattern when some part of it is in the pattern's language.
\<close>

fun in_lang :: "item list \<Rightarrow> string \<Rightarrow> bool" where
  "in_lang [] u = (u = [])"
| "in_lang (Lit l # ps) u = (\<exists>v. u = l @ v \<and> in_lang ps v)"
| "in_lang (Group_lazy # ps) u = (\<exists>g v. u = g @ v \<and> in_lang ps v)"
| "in_lang (Space_plus # ps) u =
     (\<exists>w v. u = w @ v \<and> w \<noteq> [] \<and> list_all is_space w \<and> in_lang ps v)"

definition has_occurrence :: "string \<Rightarrow> bool" where
  "has_occurrence r = (\<exists>pre u post. r = pre @ u @ post \<and> in_lang issue_pattern u)"

text \<open>No suffix of the text matches the pattern.\<close>

definition dead :: "item list \<Rightarrow> string \<Rightarrow> bool" where
  "dead ps s = (\<forall>k. match_here ps (drop k s) = None)"

subsection \<open>Reports made of issue blocks\<close>












section \<open>Checkbox keys\<close>

lemma digit_inj: "a < 10 \<Longrightarrow> b < 10 \<Longrightarrow> digit a = digit b \<Longrightarrow> a = b"
  unfolding digit_def by (subst (asm) nth_eq_iff_index_eq) simp_all

lemma str_nat_nonempty: "str_nat n \<noteq> []"
  by (subst str_nat.simps) simp

lemma str_nat_small: "n < 10 \<Longrightarrow> str_nat n = [digit n]"
  by (subst str_nat.simps) simp

lemma str_nat_large: "\<not> n < 10 \<Longrightarrow> str_nat n = str_nat (n div 10) @ [digit (n mod 10)]"
  by (subst str_nat.simps) simp

lemma str_nat_inj: "str_nat n = str_nat m \<Longrightarrow> n = m"
proof (induction n arbitrary: m rule: str_nat.induct)
  case (1 n)
  show ?case
  proof (cases "n < 10")
    case True
    note n = this
    show ?thesis
    proof (cases "m < 10")
      case True
      from "1.prems" have "digit n = digit m"
        by (simp add: str_nat_small [OF n] str_nat_small [OF True])
      then show ?thesis by (rule digit_inj [OF n True])
    next
      case False
      from "1.prems" have "[digit n] = str_nat (m div 10) @ [digit (m mod 10)]"
        by (simp add: str_nat_small [OF n] str_nat_large [OF False])
      then have "str_nat (m div 10) = []" by simp
      then show ?thesis using str_nat_nonempty by blast
    qed
  next
    case False
    note n = this
    show ?thesis
    proof (cases "m < 10")
      case True
      from "1.prems" have "str_nat (n div 10) @ [digit (n mod 10)] = [digit m]"
        by (simp add: str_nat_small [OF True] str_nat_large [OF n])
      then have "str_nat (n div 10) = []" by simp
      then show ?thesis using str_nat_nonempty by blast
    next
      case False
      from "1.prems" have e: "str_nat (n div 10) @ [digit (n mod 10)]
          = str_nat (m div 10) @ [digit (m mod 10)]"
        by (simp add: str_nat_large [OF False] str_nat_large [OF n])
      from e have a: "str_nat (n div 10) = str_nat (m div 10)" by simp
      from e have b: "digit (n mod 10) = digit (m mod 10)" by simp
      from "1.IH" [OF n a] have d: "n div 10 = m div 10" .
      have "n mod 10 < 10" "m mod 10 < 10" by simp_all
      then have r: "n mod 10 = m mod 10" using b by (rule digit_inj)
      have "n = 10 * (n div 10) + n mod 10" by simp
      also have "\<dots> = 10 * (m div 10) + m mod 10" using d r by simp
      also have "\<dots> = m" by simp
      finally show ?thesis .
    qed
  qed
qed

lemma checkbox_key_inj: "checkbox_key i = checkbox_key j \<longleftrightarrow> i = j"
  using str_nat_inj by (auto simp: checkbox_key_def)

section \<open>Submission history: filtering and bucketing\<close>


lemma group_loop_result:
  "parseable rows \<Longrightarrow>
   group_loop q sd ed t y l7 l30 rows g =
     Inr (\<lambda>b. g b @ filter (kept_in q sd ed t y l7 l30 b) rows)"
proof (induction rows arbitrary: g)
  case Nil
  then show ?case by simp
next
  case (Cons sub rows)
  obtain ti ic oc ca where sub: "sub = (ti, ic, oc, ca)" by (cases sub) auto
  from Cons.prems sub have ms: "dt_microsecond ca \<noteq> 0"
    by (simp add: parseable_def sub_created_def)
  from Cons.prems have rest: "parseable rows" by (simp add: parseable_def)
  show ?case
    using ms Cons.IH [OF rest]
    by (auto simp: sub strptime_date_def kept_in_def Let_def fun_eq_iff
        sub_title_def sub_input_def sub_date_def sub_created_def)
qed

lemma group_codes_result:
  "parseable rows \<Longrightarrow>
   group_codes q start_day end_day n1 n2 rows =
     Inr (\<lambda>b. filter (kept_in q (map_option combine_min start_day)
            (map_option combine_max end_day) n1 (n2 - 1) (n1 - 7) (n1 - 30) b) rows)"
  by (simp add: group_codes_def Let_def group_loop_result grouped_empty_def)








lemma ladder_first_matching:
  "first_matching today d = Some (ladder today (today - 1) (today - 7) (today - 30) d)"
  by (simp add: first_matching_def bucket_order_def ladder_def)

lemma scenario_dates:
  "ymd2ord 2024 6 15 = 739052" "ymd2ord 2024 6 14 = 739051" "ymd2ord 2024 6 10 = 739047"
  "ymd2ord 2024 5 20 = 739026" "ymd2ord 2024 1 1 = 738886"
  by code_simp+

lemma scenario_grouped:
  "group_codes [] None None (ymd2ord 2024 6 15) (ymd2ord 2024 6 15) scenario
     = Inr (grouped_empty
         (Today := [at_date ''a'' (ymd2ord 2024 6 15)],
          Yesterday := [at_date ''b'' (ymd2ord 2024 6 14)],
          Previous_7_Days := [at_date ''c'' (ymd2ord 2024 6 10)],
          Previous_30_Days := [at_date ''d'' (ymd2ord 2024 5 20)],
          Older := [at_date ''e'' (ymd2ord 2024 1 1)]))"
  by (simp add: scenario_dates group_codes_def scenario_def at_date_def strptime_date_def
      keeps_def ladder_def Let_def grouped_empty_def fun_eq_iff)

lemma boundary_buckets:
  "map (\<lambda>k. first_matching today (today - k)) [0, 1, 6, 7, 8, 29, 30, 31]
     = map Some [Today, Yesterday, Previous_7_Days, Previous_7_Days,
         Previous_30_Days, Previous_30_Days, Previous_30_Days, Older]"
  by (simp add: ladder_first_matching ladder_def)

lemma grouped_member:
  "sub \<in> set (filter (kept_in q (map_option combine_min start_day)
            (map_option combine_max end_day) today (today - 1) (today - 7) (today - 30) b) rows)
   \<longleftrightarrow> sub \<in> set rows \<and> survives q start_day end_day sub
       \<and> first_matching today (sub_date sub) = Some b"
  by (auto simp: kept_in_def survives_def ladder_first_matching)

text \<open>
  Claim C3. Under the input contract (every timestamp parses) and with both readings of
  the clock on the same day, the grouping returns, and every submission that survives
  the filters lies in exactly one bucket, the first one in
  the order Today, Yesterday, Previous 7 Days, Previous 30 Days, Older whose window holds
  its date. At the boundary dates today, today-1, today-6, today-7, today-8, today-29,
  today-30 and today-31 the buckets are Today, Yesterday, Previous 7 Days (twice),
  Previous 30 Days (three times) and Older. With now = 2024-06-15, the submissions dated
  2024-06-15, 2024-06-14, 2024-06-10, 2024-05-20 and 2024-01-01 are grouped under Today,
  Yesterday, Previous 7 Days, Previous 30 Days and Older.
\<close>

theorem bucketing_exclusive_ladder:
  assumes "parseable rows"
  shows "\<exists>g. group_codes q start_day end_day today today rows = Inr g
           \<and> (\<forall>sub \<in> set rows. survives q start_day end_day sub \<longrightarrow>
                 (\<exists>!b. sub \<in> set (g b))
                 \<and> (\<forall>b. sub \<in> set (g b) \<longleftrightarrow> first_matching today (sub_date sub) = Some b))
           \<and> map (\<lambda>k. first_matching today (today - k)) [0, 1, 6, 7, 8, 29, 30, 31]
               = map Some [Today, Yesterday, Previous_7_Days, Previous_7_Days,
                   Previous_30_Days, Previous_30_Days, Previous_30_Days, Older]
           \<and> group_codes [] None None (ymd2ord 2024 6 15) (ymd2ord 2024 6 15) scenario
               = Inr (grouped_empty
                   (Today := [at_date ''a'' (ymd2ord 2024 6 15)],
                    Yesterday := [at_date ''b'' (ymd2ord 2024 6 14)],
                    Previous_7_Days := [at_date ''c'' (ymd2ord 2024 6 10)],
                    Previous_30_Days := [at_date ''d'' (ymd2ord 2024 5 20)],
                    Older := [at_date ''e'' (ymd2ord 2024 1 1)]))"
proof (intro exI conjI ballI impI allI)
  show "group_codes q start_day end_day today today rows =
    Inr (\<lambda>b. filter (kept_in q (map_option combine_min start_day)
            (map_option combine_max end_day) today (today - 1) (today - 7) (today - 30) b) rows)"
    using assms by (rule group_codes_result)
next
  fix sub assume "sub \<in> set rows" "survives q start_day end_day sub"
  then show "\<exists>!b. sub \<in> set (filter (kept_in q (map_option combine_min start_day)
            (map_option combine_max end_day) today (today - 1) (today - 7) (today - 30) b) rows)"
    unfolding grouped_member by (simp add: ladder_first_matching)
next
  fix sub b assume "sub \<in> set rows" "survives q start_day end_day sub"
  then show "sub \<in> set (filter (kept_in q (map_option combine_min start_day)
            (map_option combine_max end_day) today (today - 1) (today - 7) (today - 30) b) rows)
      \<longleftrightarrow> first_matching today (sub_date sub) = Some b"
    unfolding grouped_member by simp
next
  show "map (\<lambda>k. first_matching today (today - k)) [0, 1, 6, 7, 8, 29, 30, 31]
     = map Some [Today, Yesterday, Previous_7_Days, Previous_7_Days,
         Previous_30_Days, Previous_30_Days, Previous_30_Days, Older]"
    by (rule boundary_buckets)
next
  show "group_codes [] None None (ymd2ord 2024 6 15) (ymd2ord 2024 6 15) scenario
     = Inr (grouped_empty
         (Today := [at_date ''a'' (ymd2ord 2024 6 15)],
          Yesterday := [at_date ''b'' (ymd2ord 2024 6 14)],
          Previous_7_Days := [at_date ''c'' (ymd2ord 2024 6 10)],
          Previous_30_Days := [at_date ''d'' (ymd2ord 2024 5 20)],
          Older := [at_date ''e'' (ymd2ord 2024 1 1)]))"
    by (rule scenario_grouped)
qed

lemma parseable_scenario: "parseable scenario"
  by (simp add: parseable_def scenario_def at_date_def sub_created_def)

text \<open>The theorem of claim C3 at the five submissions of the scenario.\<close>

theorem bucketing_exclusive_ladder_witness:
  "parseable scenario
   \<and> (\<exists>g. group_codes [] None None (ymd2ord 2024 6 15) (ymd2ord 2024 6 15) scenario = Inr g
        \<and> (\<forall>sub \<in> set scenario. survives [] None None sub \<longrightarrow>
              (\<exists>!b. sub \<in> set (g b))
              \<and> (\<forall>b. sub \<in> set (g b) \<longleftrightarrow>
                   first_matching (ymd2ord 2024 6 15) (sub_date sub) = Some b))
        \<and> map (\<lambda>k. first_matching (ymd2ord 2024 6 15) (ymd2ord 2024 6 15 - k))
             [0, 1, 6, 7, 8, 29, 30, 31]
               = map Some [Today, Yesterday, Previous_7_Days, Previous_7_Days,
                   Previous_30_Days, Previous_30_Days, Previous_30_Days, Older]
        \<and> group_codes [] None None (ymd2ord 2024 6 15) (ymd2ord 2024 6 15) scenario
               = Inr (grouped_empty
                   (Today := [at_date ''a'' (ymd2ord 2024 6 15)],
                    Yesterday := [at_date ''b'' (ymd2ord 2024 6 14)],
                    Previous_7_Days := [at_date ''c'' (ymd2ord 2024 6 10)],
                    Previous_30_Days := [at_date ''d'' (ymd2ord 2024 5 20)],
                    Older := [at_date ''e'' (ymd2ord 2024 1 1)])))"
  by (rule conjI [OF parseable_scenario
        bucketing_exclusive_ladder [OF parseable_scenario, of "[]" None None "ymd2ord 2024 6 15"]])




section \<open>The matcher and the parser\<close>

lemma first_some_None_iff: "first_some f ks = None \<longleftrightarrow> (\<forall>k \<in> set ks. f k = None)"
  by (induction ks) (auto split: option.splits)

lemma first_some_SomeD: "first_some f ks = Some r \<Longrightarrow> \<exists>k \<in> set ks. f k = Some r"
  by (induction ks) (auto split: option.splits)



lemma match_here_shape:
  "match_here ps s = Some (gs, r) \<Longrightarrow>
     length gs = groups_of ps \<and> length r + lits_of ps \<le> length s"
proof (induction ps arbitrary: s gs r)
  case Nil
  then show ?case by (simp add: groups_of_def lits_of_def)
next
  case (Cons p ps)
  show ?case
  proof (cases p)
    case (Lit l)
    with Cons.prems have m: "match_here ps (drop (length l) s) = Some (gs, r)"
      and t: "take (length l) s = l"
      by (auto split: if_splits)
    have "length (take (length l) s) = length l" by (simp only: t)
    then have "length l \<le> length s" by simp
    with Cons.IH [OF m] show ?thesis
      by (auto simp: Lit groups_of_def lits_of_def)
  next
    case Group_lazy
    with Cons.prems obtain k where
      "(case match_here ps (drop k s) of None \<Rightarrow> None
        | Some (gs, r) \<Rightarrow> Some (take k s # gs, r)) = Some (gs, r)"
      by (auto dest!: first_some_SomeD)
    then obtain gs' where m: "match_here ps (drop k s) = Some (gs', r)" and g: "gs = take k s # gs'"
      by (auto split: option.splits)
    from Cons.IH [OF m] show ?thesis
      by (auto simp: Group_lazy g groups_of_def lits_of_def)
  next
    case Space_plus
    with Cons.prems obtain k where m: "match_here ps (drop k s) = Some (gs, r)"
      by (auto dest!: first_some_SomeD)
    from Cons.IH [OF m] show ?thesis
      by (auto simp: Space_plus groups_of_def lits_of_def)
  qed
qed

lemma match_issue_groups: "match_here issue_pattern s = Some (gs, r) \<Longrightarrow> length gs = 4"
  by (drule match_here_shape) (simp add: issue_pattern_def groups_of_def)

lemma match_issue_shorter: "match_here issue_pattern s = Some (gs, r) \<Longrightarrow> length r < length s"
  by (drule match_here_shape) (simp add: issue_pattern_def lits_of_def)

lemma findall_Some: "match_here issue_pattern s = Some (gs, r) \<Longrightarrow> findall s = gs # findall r"
  by (subst findall.simps) (simp add: match_issue_shorter)

lemma findall_None_Cons: "match_here issue_pattern (c # cs) = None \<Longrightarrow> findall (c # cs) = findall cs"
  by (subst findall.simps) simp

lemma findall_Nil [simp]: "findall [] = []"
  by (subst findall.simps) (simp add: issue_pattern_def)

lemma findall_groups: "gs \<in> set (findall s) \<Longrightarrow> length gs = 4"
proof (induction s rule: length_induct)
  case (1 s)
  show ?case
  proof (cases "match_here issue_pattern s")
    case None
    show ?thesis
    proof (cases s)
      case Nil
      with "1.prems" show ?thesis by simp
    next
      case (Cons c cs)
      with None "1.prems" have "gs \<in> set (findall cs)" by (simp add: findall_None_Cons)
      moreover have "length cs < length s" using Cons by simp
      ultimately show ?thesis using "1.IH" by blast
    qed
  next
    case (Some a)
    obtain g r where a: "a = (g, r)" by (cases a)
    from Some a have m: "match_here issue_pattern s = Some (g, r)" by simp
    from "1.prems" have "gs = g \<or> gs \<in> set (findall r)" by (simp add: findall_Some [OF m])
    then show ?thesis
    proof
      assume "gs = g" with m show ?thesis by (simp add: match_issue_groups)
    next
      assume "gs \<in> set (findall r)"
      with "1.IH" match_issue_shorter [OF m] show ?thesis by blast
    qed
  qed
qed

lemma format_issue_4: "length gs = 4 \<Longrightarrow> \<exists>x. format_issue gs = Inr x"
  by (cases gs rule: format_issue.cases) auto

lemma format_all_total:
  "\<forall>gs \<in> set gss. length gs = 4 \<Longrightarrow> \<exists>xs. format_all gss = Inr xs \<and> length xs = length gss"
proof (induction gss)
  case Nil
  then show ?case by simp
next
  case (Cons gs gss)
  then obtain x xs where "format_issue gs = Inr x" "format_all gss = Inr xs" "length xs = length gss"
    using format_issue_4 [of gs] by auto
  then show ?case by simp
qed

lemma parse_total: "\<exists>issues. parse_vulnerabilities r = Inr issues \<and> length issues = length (findall r)"
  unfolding parse_vulnerabilities_def by (rule format_all_total) (simp add: findall_groups)

section \<open>Selection state and the blocks of the page\<close>

lemma ensure_lookup:
  "map_of (ensure k d) k' = (if k' = k then Some (entry_or_false d k) else map_of d k')"
proof (cases "map_of d k")
  case None
  then show ?thesis by (simp add: ensure_def entry_or_false_def AList.update_conv')
next
  case (Some v)
  then show ?thesis by (simp add: ensure_def entry_or_false_def)
qed

lemma ensure_keys: "fst ` set (ensure k d) = insert k (fst ` set d)"
proof (cases "map_of d k")
  case None
  then show ?thesis by (simp add: ensure_def AList.dom_update)
next
  case (Some v)
  then have "k \<in> fst ` set d" by (meson domI dom_map_of_conv_image_fst [THEN equalityD1, THEN subsetD])
  with Some show ?thesis by (simp add: ensure_def insert_absorb)
qed

lemma checkbox_loop_result:
  "distinct (map fst ps) \<Longrightarrow>
   \<exists>d'. checkbox_loop cb ps d = (None, d')
      \<and> (\<forall>i x. (i, x) \<in> set ps \<longrightarrow> map_of d' (checkbox_key i)
             = Some (cb x (entry_or_false d (checkbox_key i)) (checkbox_key i)))
      \<and> (\<forall>k. k \<notin> checkbox_key ` fst ` set ps \<longrightarrow> map_of d' k = map_of d k)
      \<and> fst ` set d' = fst ` set d \<union> checkbox_key ` fst ` set ps"
proof (induction ps arbitrary: d)
  case Nil
  then show ?case by simp
next
  case (Cons p ps)
  obtain i x where p: "p = (i, x)" by (cases p)
  let ?k = "checkbox_key i"
  let ?v = "entry_or_false d ?k"
  let ?d2 = "AList.update ?k (cb x ?v ?k) (ensure ?k d)"
  from Cons.prems p have dist: "distinct (map fst ps)" and fresh: "i \<notin> fst ` set ps" by auto
  from Cons.IH [OF dist, of ?d2] have "\<exists>d'. checkbox_loop cb ps ?d2 = (None, d')
      \<and> (\<forall>j y. (j, y) \<in> set ps \<longrightarrow> map_of d' (checkbox_key j)
             = Some (cb y (entry_or_false ?d2 (checkbox_key j)) (checkbox_key j)))
      \<and> (\<forall>k. k \<notin> checkbox_key ` fst ` set ps \<longrightarrow> map_of d' k = map_of ?d2 k)
      \<and> fst ` set d' = fst ` set ?d2 \<union> checkbox_key ` fst ` set ps"
    (is "\<exists>d'. ?P d'") .
  then obtain d' where h: "?P d'" ..
  from h have run: "checkbox_loop cb ps ?d2 = (None, d')" by (rule conjunct1)
  from h have new: "map_of d' (checkbox_key j)
             = Some (cb y (entry_or_false ?d2 (checkbox_key j)) (checkbox_key j))"
    if "(j, y) \<in> set ps" for j y
    using that by (elim conjE allE [of _ j] allE [of _ y]) (erule (1) impE)
  from h have old: "map_of d' k = map_of ?d2 k" if "k \<notin> checkbox_key ` fst ` set ps" for k
    using that by (elim conjE allE [of _ k]) (erule (1) impE)
  from h have keys: "fst ` set d' = fst ` set ?d2 \<union> checkbox_key ` fst ` set ps"
    by (elim conjE)
  have d2: "map_of ?d2 k = (if k = ?k then Some (cb x ?v ?k) else map_of d k)" for k
    by (simp add: AList.update_conv' ensure_lookup)
  have step: "checkbox_loop cb (p # ps) d = checkbox_loop cb ps ?d2"
    by (simp add: p Let_def ensure_lookup)
  have knew: "?k \<notin> checkbox_key ` fst ` set ps"
  proof
    assume "?k \<in> checkbox_key ` fst ` set ps"
    then obtain j where "j \<in> fst ` set ps" "checkbox_key i = checkbox_key j" by blast
    with fresh show False by (simp add: checkbox_key_inj)
  qed
  have a: "map_of d' ?k = Some (cb x ?v ?k)"
    using old [OF knew] d2 by simp
  have b: "map_of d' (checkbox_key j)
             = Some (cb y (entry_or_false d (checkbox_key j)) (checkbox_key j))"
    if jy: "(j, y) \<in> set ps" for j y
  proof -
    from jy have "j \<in> fst ` set ps" by (rule rev_image_eqI) simp
    with fresh have "j \<noteq> i" by blast
    then have "map_of ?d2 (checkbox_key j) = map_of d (checkbox_key j)"
      by (simp add: d2 checkbox_key_inj)
    then have eq: "entry_or_false ?d2 (checkbox_key j) = entry_or_false d (checkbox_key j)"
      by (simp only: entry_or_false_def)
    show ?thesis using new [OF jy] by (simp only: eq)
  qed
  have ab: "\<forall>j y. (j, y) \<in> set (p # ps) \<longrightarrow> map_of d' (checkbox_key j)
             = Some (cb y (entry_or_false d (checkbox_key j)) (checkbox_key j))"
  proof (intro allI impI)
    fix j y assume "(j, y) \<in> set (p # ps)"
    then have "(j = i \<and> y = x) \<or> (j, y) \<in> set ps" by (simp add: p)
    then show "map_of d' (checkbox_key j)
             = Some (cb y (entry_or_false d (checkbox_key j)) (checkbox_key j))"
      using a b by blast
  qed
  have c: "\<forall>k. k \<notin> checkbox_key ` fst ` set (p # ps) \<longrightarrow> map_of d' k = map_of d k"
  proof (intro allI impI)
    fix k assume k: "k \<notin> checkbox_key ` fst ` set (p # ps)"
    then have k1: "k \<noteq> ?k" and k2: "k \<notin> checkbox_key ` fst ` set ps" by (simp_all add: p)
    show "map_of d' k = map_of d k" using old [OF k2] d2 k1 by simp
  qed
  have "fst ` set ?d2 = insert ?k (fst ` set d)"
    by (simp add: AList.dom_update ensure_keys)
  with keys have "fst ` set d' = insert ?k (fst ` set d) \<union> checkbox_key ` fst ` set ps"
    by (simp only:)
  then have e: "fst ` set d' = fst ` set d \<union> checkbox_key ` fst ` set (p # ps)"
    by (simp add: p)
  from run step have "checkbox_loop cb (p # ps) d = (None, d')" by simp
  with ab c e show ?case by blast
qed

lemma enumerate_list_nth: "enumerate_list xs = map (\<lambda>i. (i, xs ! i)) [0 ..< length xs]"
  unfolding enumerate_list_def by (rule nth_equalityI) simp_all

lemma enumerate_list_fst: "map fst (enumerate_list xs) = [0 ..< length xs]"
  by (simp add: enumerate_list_def)

lemma enumerate_list_member: "(i, x) \<in> set (enumerate_list xs) \<longleftrightarrow> i < length xs \<and> x = xs ! i"
  by (auto simp: enumerate_list_nth)

lemma enumerate_list_keys: "fst ` set (enumerate_list issues) = {..< length issues}"
proof -
  have "fst ` set (enumerate_list issues) = set (map fst (enumerate_list issues))" by simp
  also have "\<dots> = {..< length issues}" by (simp only: enumerate_list_fst) auto
  finally show ?thesis .
qed

lemma checkbox_loop_issues:
  "\<exists>d'. checkbox_loop cb (enumerate_list issues) d = (None, d')
      \<and> (\<forall>i < length issues. map_of d' (checkbox_key i)
             = Some (cb (issues ! i) (entry_or_false d (checkbox_key i)) (checkbox_key i)))
      \<and> (\<forall>k. k \<notin> checkbox_key ` {..< length issues} \<longrightarrow> map_of d' k = map_of d k)"
proof -
  have dist: "distinct (map fst (enumerate_list issues))"
    by (simp add: enumerate_list_fst)
  from checkbox_loop_result [OF dist, of cb d] obtain d' where
    h: "checkbox_loop cb (enumerate_list issues) d = (None, d')
      \<and> (\<forall>i x. (i, x) \<in> set (enumerate_list issues) \<longrightarrow> map_of d' (checkbox_key i)
             = Some (cb x (entry_or_false d (checkbox_key i)) (checkbox_key i)))
      \<and> (\<forall>k. k \<notin> checkbox_key ` fst ` set (enumerate_list issues) \<longrightarrow> map_of d' k = map_of d k)
      \<and> fst ` set d' = fst ` set d \<union> checkbox_key ` fst ` set (enumerate_list issues)" ..
  have 1: "checkbox_loop cb (enumerate_list issues) d = (None, d')"
    using h by (rule conjunct1)
  have 2: "\<forall>i < length issues. map_of d' (checkbox_key i)
             = Some (cb (issues ! i) (entry_or_false d (checkbox_key i)) (checkbox_key i))"
    using h [THEN conjunct2, THEN conjunct1] by (simp add: enumerate_list_member)
  have 3: "\<forall>k. k \<notin> checkbox_key ` {..< length issues} \<longrightarrow> map_of d' k = map_of d k"
    using h [THEN conjunct2, THEN conjunct2, THEN conjunct1]
    by (simp only: enumerate_list_keys)
  show ?thesis
    by (rule exI [of _ d']) (intro conjI 1 2 3)
qed

lemma checkbox_loop_keys:
  "checkbox_loop cb (enumerate_list issues) d = (e, d') \<Longrightarrow>
   e = None \<and> fst ` set d' = fst ` set d \<union> checkbox_key ` {..< length issues}"
proof -
  assume run: "checkbox_loop cb (enumerate_list issues) d = (e, d')"
  have dist: "distinct (map fst (enumerate_list issues))"
    by (simp add: enumerate_list_fst)
  from checkbox_loop_result [OF dist, of cb d] obtain d'' where
    h: "checkbox_loop cb (enumerate_list issues) d = (None, d'')
      \<and> (\<forall>i x. (i, x) \<in> set (enumerate_list issues) \<longrightarrow> map_of d'' (checkbox_key i)
             = Some (cb x (entry_or_false d (checkbox_key i)) (checkbox_key i)))
      \<and> (\<forall>k. k \<notin> checkbox_key ` fst ` set (enumerate_list issues) \<longrightarrow> map_of d'' k = map_of d k)
      \<and> fst ` set d'' = fst ` set d \<union> checkbox_key ` fst ` set (enumerate_list issues)" ..
  from h [THEN conjunct1] run have eq: "e = None" "d' = d''" by simp_all
  from h [THEN conjunct2, THEN conjunct2, THEN conjunct2]
  have "fst ` set d'' = fst ` set d \<union> checkbox_key ` {..< length issues}"
    by (simp only: enumerate_list_keys)
  with eq show ?thesis by simp
qed

text \<open>
  Claim C9. The ensure step gives a key without an entry an entry that reads False, leaves
  the value of a key that has an entry, and touches no other key. In the loop over the
  issues, the checkbox of issue \<open>i\<close> is therefore handed False when the index had no entry
  at the start of the render and the existing value when it had one, and the entry then
  holds what the checkbox returns; with a checkbox that returns the value it was handed,
  the new entries read False and the existing ones keep their value.
\<close>

theorem ensure_defaults_without_clobbering:
  "(map_of d k = None \<longrightarrow> map_of (ensure k d) k = Some False)
   \<and> (\<forall>v. map_of d k = Some v \<longrightarrow> map_of (ensure k d) k = Some v)
   \<and> (\<forall>k'. k' \<noteq> k \<longrightarrow> map_of (ensure k d) k' = map_of d k')
   \<and> (\<exists>d'. checkbox_loop cb (enumerate_list issues) d = (None, d')
         \<and> (\<forall>i < length issues. map_of d' (checkbox_key i)
               = Some (cb (issues ! i)
                    (case map_of d (checkbox_key i) of None \<Rightarrow> False | Some v \<Rightarrow> v)
                    (checkbox_key i))))
   \<and> (\<exists>d'. checkbox_loop (\<lambda>label value key. value) (enumerate_list issues) d = (None, d')
         \<and> (\<forall>i < length issues.
               (map_of d (checkbox_key i) = None \<longrightarrow> map_of d' (checkbox_key i) = Some False)
               \<and> (\<forall>v. map_of d (checkbox_key i) = Some v \<longrightarrow>
                      map_of d' (checkbox_key i) = Some v)))"
proof (intro conjI)
  show "map_of d k = None \<longrightarrow> map_of (ensure k d) k = Some False"
    by (simp add: ensure_lookup entry_or_false_def)
  show "\<forall>v. map_of d k = Some v \<longrightarrow> map_of (ensure k d) k = Some v"
    by (simp add: ensure_lookup entry_or_false_def)
  show "\<forall>k'. k' \<noteq> k \<longrightarrow> map_of (ensure k d) k' = map_of d k'"
    by (simp add: ensure_lookup)
  show "\<exists>d'. checkbox_loop cb (enumerate_list issues) d = (None, d')
         \<and> (\<forall>i < length issues. map_of d' (checkbox_key i)
               = Some (cb (issues ! i)
                    (case map_of d (checkbox_key i) of None \<Rightarrow> False | Some v \<Rightarrow> v)
                    (checkbox_key i)))"
  proof -
    from checkbox_loop_issues [of cb issues d] obtain d' where
      h: "checkbox_loop cb (enumerate_list issues) d = (None, d')
      \<and> (\<forall>i < length issues. map_of d' (checkbox_key i)
             = Some (cb (issues ! i) (entry_or_false d (checkbox_key i)) (checkbox_key i)))
      \<and> (\<forall>k. k \<notin> checkbox_key ` {..< length issues} \<longrightarrow> map_of d' k = map_of d k)" ..
    show ?thesis
      by (rule exI [of _ d'], rule conjI, rule h [THEN conjunct1])
         (rule h [THEN conjunct2, THEN conjunct1, unfolded entry_or_false_def])
  qed
  show "\<exists>d'. checkbox_loop (\<lambda>label value key. value) (enumerate_list issues) d = (None, d')
         \<and> (\<forall>i < length issues.
               (map_of d (checkbox_key i) = None \<longrightarrow> map_of d' (checkbox_key i) = Some False)
               \<and> (\<forall>v. map_of d (checkbox_key i) = Some v \<longrightarrow>
                      map_of d' (checkbox_key i) = Some v))"
  proof -
    from checkbox_loop_issues [of "\<lambda>label value key. value" issues d] obtain d' where
      h: "checkbox_loop (\<lambda>label value key. value) (enumerate_list issues) d = (None, d')
      \<and> (\<forall>i < length issues. map_of d' (checkbox_key i)
             = Some (entry_or_false d (checkbox_key i)))
      \<and> (\<forall>k. k \<notin> checkbox_key ` {..< length issues} \<longrightarrow> map_of d' k = map_of d k)" ..
    note run = h [THEN conjunct1] and v = h [THEN conjunct2, THEN conjunct1]
    from v have "\<forall>i < length issues.
               (map_of d (checkbox_key i) = None \<longrightarrow> map_of d' (checkbox_key i) = Some False)
               \<and> (\<forall>v. map_of d (checkbox_key i) = Some v \<longrightarrow>
                      map_of d' (checkbox_key i) = Some v)"
      by (simp add: entry_or_false_def)
    with run show ?thesis by (intro exI conjI)
  qed
qed

lemma save_if_user_fst: "fst (save_if_user inp t i out r) = fst r"
  by (simp add: save_if_user_def raise_def split: option.splits)

lemma save_if_user_calls: "rewrite_calls (snd (save_if_user inp t i out r)) = rewrite_calls (snd r)"
  by (simp add: save_if_user_def raise_def split: option.splits)

lemma save_if_user_rows:
  "row \<in> set (save_calls (snd (save_if_user inp t i out r))) \<Longrightarrow>
   row \<in> set (save_calls (snd r)) \<or> snd (snd (snd row)) = out"
  by (auto simp: save_if_user_def raise_def split: option.splits if_splits)

lemma scan_block_calls: "rewrite_calls (snd (scan_block inp r)) = rewrite_calls (snd r)"
  by (simp add: scan_block_def Let_def raise_def save_if_user_calls split: sum.splits)

lemma scan_block_fixed: "fixed_code (fst (scan_block inp r)) = fixed_code (fst r)"
  by (simp add: scan_block_def Let_def raise_def save_if_user_fst split: sum.splits)

lemma scan_block_resolved: "issue_resolved (fst (scan_block inp r)) \<Longrightarrow> issue_resolved (fst r)"
  by (simp add: scan_block_def Let_def raise_def save_if_user_fst split: sum.splits if_splits)

lemma scan_block_rows:
  "row \<in> set (save_calls (snd (scan_block inp r))) \<Longrightarrow>
   row \<in> set (save_calls (snd r)) \<or> snd (snd (snd row)) = None"
  by (auto simp: scan_block_def Let_def raise_def split: sum.splits if_splits
      dest!: save_if_user_rows)

lemma display_block_calls: "rewrite_calls (snd (display_block inp r)) = rewrite_calls (snd r)"
  by (simp add: display_block_def Let_def raise_def split: sum.splits prod.splits)

lemma display_block_saves: "save_calls (snd (display_block inp r)) = save_calls (snd r)"
  by (simp add: display_block_def Let_def raise_def split: sum.splits prod.splits)

lemma display_block_fixed: "fixed_code (fst (display_block inp r)) = fixed_code (fst r)"
  by (simp add: display_block_def Let_def raise_def split: sum.splits prod.splits)

lemma display_block_resolved: "issue_resolved (fst (display_block inp r)) = issue_resolved (fst r)"
  by (simp add: display_block_def Let_def raise_def split: sum.splits prod.splits)

lemma display_block_report:
  "vulnerability_report (fst (display_block inp r)) = vulnerability_report (fst r)"
  by (simp add: display_block_def Let_def raise_def split: sum.splits prod.splits)

lemma resolve_block_report:
  "vulnerability_report (fst (resolve_block inp r)) = vulnerability_report (fst r)"
  by (simp add: resolve_block_def Let_def raise_def save_if_user_fst split: sum.splits)

lemma resolve_block_selected:
  "selected_issues (fst (resolve_block inp r)) = selected_issues (fst r)"
  by (simp add: resolve_block_def Let_def raise_def save_if_user_fst split: sum.splits)

lemma resolve_block_code:
  "last_user_code (fst (resolve_block inp r)) = last_user_code (fst r)"
  by (simp add: resolve_block_def Let_def raise_def save_if_user_fst split: sum.splits)

lemma resolve_block_calls:
  "rewrite_calls (snd (resolve_block inp r)) = rewrite_calls (snd r)
   \<or> (\<exists>text. selected_issues_text (fst r) = Inr text
         \<and> rewrite_calls (snd (resolve_block inp r))
             = rewrite_calls (snd r) @ [(last_user_code (fst r), text)])"
  by (simp add: resolve_block_def Let_def raise_def save_if_user_calls split: sum.splits)

lemma resolve_block_failed:
  assumes "\<forall>code text. \<exists>err. rewrite_code_with_openai inp code text = Inl err"
  shows "fst (resolve_block inp r) = fst r"
    and "save_calls (snd (resolve_block inp r)) = save_calls (snd r)"
    and "rewrite_calls (snd (resolve_block inp r)) \<noteq> rewrite_calls (snd r)
           \<Longrightarrow> raised (snd (resolve_block inp r)) \<noteq> None"
proof -
  show "fst (resolve_block inp r) = fst r"
  proof (cases "selected_issues_text (fst r)")
    case (Inl e)
    then show ?thesis by (simp add: resolve_block_def Let_def raise_def)
  next
    case (Inr instr)
    from assms obtain err where
      "rewrite_code_with_openai inp (last_user_code (fst r)) instr = Inl err" by blast
    with Inr show ?thesis by (simp add: resolve_block_def Let_def raise_def)
  qed
  show "save_calls (snd (resolve_block inp r)) = save_calls (snd r)"
  proof (cases "selected_issues_text (fst r)")
    case (Inl e)
    then show ?thesis by (simp add: resolve_block_def Let_def raise_def)
  next
    case (Inr instr)
    from assms obtain err where
      "rewrite_code_with_openai inp (last_user_code (fst r)) instr = Inl err" by blast
    with Inr show ?thesis by (simp add: resolve_block_def Let_def raise_def)
  qed
  show "rewrite_calls (snd (resolve_block inp r)) \<noteq> rewrite_calls (snd r)
           \<Longrightarrow> raised (snd (resolve_block inp r)) \<noteq> None"
  proof (cases "selected_issues_text (fst r)")
    case (Inl e)
    assume "rewrite_calls (snd (resolve_block inp r)) \<noteq> rewrite_calls (snd r)"
    with Inl show ?thesis
      by (simp add: resolve_block_def Let_def raise_def split: if_splits)
  next
    case (Inr instr)
    assume d: "rewrite_calls (snd (resolve_block inp r)) \<noteq> rewrite_calls (snd r)"
    from assms obtain err where
      "rewrite_code_with_openai inp (last_user_code (fst r)) instr = Inl err" by blast
    with Inr d show ?thesis
      by (simp add: resolve_block_def Let_def raise_def split: if_splits)
  qed
qed

lemma then_block_cases: "then_block f r = r \<or> then_block f r = f r"
  by (simp add: then_block_def)

lemma then_result_fst [simp]: "fst (then_block result_block r) = fst r"
  by (simp add: then_block_def result_block_def Let_def)

lemma then_result_calls [simp]:
  "rewrite_calls (snd (then_block result_block r)) = rewrite_calls (snd r)"
  by (simp add: then_block_def result_block_def Let_def)

lemma then_result_saves [simp]:
  "save_calls (snd (then_block result_block r)) = save_calls (snd r)"
  by (simp add: then_block_def result_block_def Let_def)

lemma main_home:
  "option_menu inp = Home \<Longrightarrow>
   main inp s = then_block result_block (then_block (resolve_block inp)
            (then_block (display_block inp) (scan_block inp (s, no_effects))))"
  by (simp add: main_def)

text \<open>
  Claim C7. When the rewrite collaborator raises, the resolve block leaves the session
  state as it found it and saves nothing, and the error ends the run; over the whole run
  of the script, \<open>fixed_code\<close> is what it was, \<open>issue_resolved\<close> is not set to true, and
  every submission saved has no output.
\<close>

theorem failed_rewrite_is_atomic:
  assumes "\<forall>code text. \<exists>err. rewrite_code_with_openai inp code text = Inl err"
  shows "fst (resolve_block inp r) = fst r
         \<and> save_calls (snd (resolve_block inp r)) = save_calls (snd r)
         \<and> (rewrite_calls (snd (resolve_block inp r)) \<noteq> rewrite_calls (snd r)
              \<longrightarrow> raised (snd (resolve_block inp r)) \<noteq> None)
         \<and> fixed_code (fst (main inp s)) = fixed_code s
         \<and> (issue_resolved (fst (main inp s)) \<longrightarrow> issue_resolved s)
         \<and> (\<forall>row \<in> set (save_calls (snd (main inp s))). snd (snd (snd row)) = None)"
proof -
  note rb = resolve_block_failed [OF assms]
  let ?a = "scan_block inp (s, no_effects)"
  let ?b = "then_block (display_block inp) ?a"
  let ?c = "then_block (resolve_block inp) ?b"
  have a1: "fixed_code (fst ?a) = fixed_code s"
    using scan_block_fixed [of inp "(s, no_effects)"] by simp
  have a2: "issue_resolved (fst ?a) \<longrightarrow> issue_resolved s"
    using scan_block_resolved [of inp "(s, no_effects)"] by auto
  have a3: "\<forall>row \<in> set (save_calls (snd ?a)). snd (snd (snd row)) = None"
    using scan_block_rows [of _ inp "(s, no_effects)"] by (auto simp: no_effects_def)
  have b1: "fixed_code (fst ?b) = fixed_code s"
    using a1 by (simp add: then_block_def display_block_fixed)
  have b2: "issue_resolved (fst ?b) \<longrightarrow> issue_resolved s"
    using a2 by (simp add: then_block_def display_block_resolved)
  have b3: "\<forall>row \<in> set (save_calls (snd ?b)). snd (snd (snd row)) = None"
    using a3 by (simp add: then_block_def display_block_saves)
  have c1: "fixed_code (fst ?c) = fixed_code s"
    using b1 by (simp add: then_block_def rb(1))
  have c2: "issue_resolved (fst ?c) \<longrightarrow> issue_resolved s"
    using b2 by (simp add: then_block_def rb(1))
  have c3: "\<forall>row \<in> set (save_calls (snd ?c)). snd (snd (snd row)) = None"
    using b3 by (simp add: then_block_def rb(2))
  have m: "fixed_code (fst (main inp s)) = fixed_code s
         \<and> (issue_resolved (fst (main inp s)) \<longrightarrow> issue_resolved s)
         \<and> (\<forall>row \<in> set (save_calls (snd (main inp s))). snd (snd (snd row)) = None)"
  proof (cases "option_menu inp")
    case Home
    then show ?thesis using c1 c2 c3 by (simp add: main_home [OF Home])
  next
    case Recent_Codes
    then show ?thesis
      by (simp add: main_def history_block_def raise_def no_effects_def split: sum.splits)
  next
    case Logout
    then show ?thesis by (simp add: main_def no_effects_def)
  qed
  show ?thesis using rb m by simp
qed

section \<open>The resolve block\<close>

lemma selected_texts_Inr:
  "selected_texts d ps = Inr xs \<Longrightarrow>
   xs = map snd (filter (\<lambda>p. map_of d (checkbox_key (fst p)) = Some True) ps)"
proof (induction ps arbitrary: xs)
  case Nil
  then show ?case by simp
next
  case (Cons p ps)
  obtain i x where p: "p = (i, x)" by (cases p)
  from Cons.prems obtain v ys where v: "map_of d (checkbox_key i) = Some v"
    and ys: "selected_texts d ps = Inr ys" and xs: "xs = (if v then x # ys else ys)"
    by (auto simp: p split: option.splits sum.splits)
  from Cons.IH [OF ys] show ?case by (cases v) (simp_all add: p v xs)
qed

lemma selected_texts_total:
  "\<forall>p \<in> set ps. map_of d (checkbox_key (fst p)) \<noteq> None \<Longrightarrow> \<exists>xs. selected_texts d ps = Inr xs"
proof (induction ps)
  case Nil
  then show ?case by simp
next
  case (Cons p ps)
  obtain i x where p: "p = (i, x)" by (cases p)
  from Cons.prems p obtain v where v: "map_of d (checkbox_key i) = Some v" by auto
  from Cons obtain ys where "selected_texts d ps = Inr ys" by auto
  with v show ?case by (simp add: p)
qed

lemma filter_enumerate:
  "map snd (filter (\<lambda>p. P (fst p)) (enumerate_list xs)) = map (\<lambda>i. xs ! i) (filter P [0 ..< length xs])"
  by (simp add: enumerate_list_nth filter_map comp_def)

lemma selected_texts_instructions:
  "selected_texts d (enumerate_list issues) = Inr xs \<Longrightarrow> join ''\<newline>'' xs = instructions d issues"
  by (drule selected_texts_Inr)
     (simp add: instructions_def selected_indices_def
        filter_enumerate [of "\<lambda>i. map_of d (checkbox_key i) = Some True"])

lemma selected_issues_text_Inr:
  "selected_issues_text s = Inr instr \<Longrightarrow>
   \<exists>issues. parse_vulnerabilities (vulnerability_report s) = Inr issues
      \<and> instr = instructions (selected_issues s) issues"
  by (auto simp: selected_issues_text_def selected_texts_instructions split: sum.splits)

lemma selected_issues_text_total:
  assumes "parse_vulnerabilities (vulnerability_report s) = Inr issues"
    and "\<forall>i < length issues. map_of (selected_issues s) (checkbox_key i) \<noteq> None"
  shows "selected_issues_text s = Inr (instructions (selected_issues s) issues)"
proof -
  from assms(2) have "\<forall>p \<in> set (enumerate_list issues).
      map_of (selected_issues s) (checkbox_key (fst p)) \<noteq> None"
    by (auto simp: enumerate_list_member)
  then obtain xs where xs: "selected_texts (selected_issues s) (enumerate_list issues) = Inr xs"
    using selected_texts_total by blast
  with assms(1) show ?thesis
    by (simp add: selected_issues_text_def selected_texts_instructions)
qed

lemma main_rewrite_calls:
  "rewrite_calls (snd (main inp s)) = []
   \<or> (\<exists>issues. parse_vulnerabilities (vulnerability_report (fst (main inp s))) = Inr issues
         \<and> rewrite_calls (snd (main inp s))
             = [(last_user_code (fst (main inp s)),
                 instructions (selected_issues (fst (main inp s))) issues)])"
proof (cases "option_menu inp")
  case Home
  let ?a = "scan_block inp (s, no_effects)"
  let ?b = "then_block (display_block inp) ?a"
  have a: "rewrite_calls (snd ?a) = []"
    by (simp add: scan_block_calls no_effects_def)
  have b: "rewrite_calls (snd ?b) = []"
    using a by (simp add: then_block_def display_block_calls)
  show ?thesis
  proof (cases "running ?b")
    case False
    then show ?thesis using b
      by (simp add: main_home [OF Home] then_block_def [of "resolve_block inp"])
  next
    case True
    then have m: "main inp s = then_block result_block (resolve_block inp ?b)"
      by (simp add: main_home [OF Home] then_block_def [of "resolve_block inp"])
    from resolve_block_calls [of inp ?b] show ?thesis
    proof
      assume "rewrite_calls (snd (resolve_block inp ?b)) = rewrite_calls (snd ?b)"
      with b m show ?thesis by simp
    next
      assume "\<exists>instr. selected_issues_text (fst ?b) = Inr instr
         \<and> rewrite_calls (snd (resolve_block inp ?b))
             = rewrite_calls (snd ?b) @ [(last_user_code (fst ?b), instr)]"
      then obtain instr where t: "selected_issues_text (fst ?b) = Inr instr"
        and c: "rewrite_calls (snd (resolve_block inp ?b))
             = rewrite_calls (snd ?b) @ [(last_user_code (fst ?b), instr)]" by blast
      from selected_issues_text_Inr [OF t] obtain issues where
        p: "parse_vulnerabilities (vulnerability_report (fst ?b)) = Inr issues"
        and i: "instr = instructions (selected_issues (fst ?b)) issues" by blast
      have "parse_vulnerabilities (vulnerability_report (fst (main inp s))) = Inr issues
         \<and> rewrite_calls (snd (main inp s))
             = [(last_user_code (fst (main inp s)),
                 instructions (selected_issues (fst (main inp s))) issues)]"
        using p i c b
        by (simp add: m resolve_block_report resolve_block_selected resolve_block_code)
      then show ?thesis by blast
    qed
  qed
next
  case Recent_Codes
  then show ?thesis
    by (simp add: main_def history_block_def raise_def no_effects_def split: sum.splits)
next
  case Logout
  then show ?thesis by (simp add: main_def no_effects_def)
qed

text \<open>
  Claim C6. The text built on a click on resolve is the texts of the issues of the current
  report whose entry is true, in ascending index order, joined by newlines; it is built
  whenever every issue of the report has an entry; a run of the script calls the rewrite
  collaborator at most once, with the last user code and that text; and the selected
  indices are ascending without repetition.
\<close>

theorem instructions_are_selected_issues_in_order:
  "(selected_issues_text s = Inr instr \<longrightarrow>
      (\<exists>issues. parse_vulnerabilities (vulnerability_report s) = Inr issues
         \<and> instr = join ''\<newline>'' (map (\<lambda>i. issues ! i)
              (filter (\<lambda>i. map_of (selected_issues s) (checkbox_key i) = Some True)
                 [0 ..< length issues]))))
   \<and> (\<forall>issues. parse_vulnerabilities (vulnerability_report s) = Inr issues
         \<and> (\<forall>i < length issues. map_of (selected_issues s) (checkbox_key i) \<noteq> None)
       \<longrightarrow> selected_issues_text s = Inr (instructions (selected_issues s) issues))
   \<and> (rewrite_calls (snd (main inp s)) = []
       \<or> (\<exists>issues. parse_vulnerabilities (vulnerability_report (fst (main inp s))) = Inr issues
            \<and> rewrite_calls (snd (main inp s))
                = [(last_user_code (fst (main inp s)),
                    instructions (selected_issues (fst (main inp s))) issues)]))
   \<and> sorted (selected_indices d n) \<and> distinct (selected_indices d n)"
proof (intro conjI impI allI)
  assume "selected_issues_text s = Inr instr"
  from selected_issues_text_Inr [OF this]
  show "\<exists>issues. parse_vulnerabilities (vulnerability_report s) = Inr issues
         \<and> instr = join ''\<newline>'' (map (\<lambda>i. issues ! i)
              (filter (\<lambda>i. map_of (selected_issues s) (checkbox_key i) = Some True)
                 [0 ..< length issues]))"
    by (simp add: instructions_def selected_indices_def)
next
  fix issues
  assume "parse_vulnerabilities (vulnerability_report s) = Inr issues
         \<and> (\<forall>i < length issues. map_of (selected_issues s) (checkbox_key i) \<noteq> None)"
  then show "selected_issues_text s = Inr (instructions (selected_issues s) issues)"
    using selected_issues_text_total by blast
next
  show "rewrite_calls (snd (main inp s)) = []
       \<or> (\<exists>issues. parse_vulnerabilities (vulnerability_report (fst (main inp s))) = Inr issues
            \<and> rewrite_calls (snd (main inp s))
                = [(last_user_code (fst (main inp s)),
                    instructions (selected_issues (fst (main inp s))) issues)])"
    by (rule main_rewrite_calls)
next
  show "sorted (selected_indices d n)" by (simp add: selected_indices_def sorted_wrt_filter)
next
  show "distinct (selected_indices d n)" by (simp add: selected_indices_def)
qed

section \<open>The scan block\<close>

lemma ensure_distinct: "distinct (map fst d) \<Longrightarrow> distinct (map fst (ensure k d))"
  by (simp add: ensure_def AList.distinct_update)

lemma checkbox_loop_distinct:
  "distinct (map fst d) \<Longrightarrow> distinct (map fst (snd (checkbox_loop cb ps d)))"
proof (induction ps arbitrary: d)
  case Nil
  then show ?case by simp
next
  case (Cons p ps)
  obtain i x where p: "p = (i, x)" by (cases p)
  let ?k = "checkbox_key i"
  have l: "map_of (ensure ?k d) ?k = Some (entry_or_false d ?k)" by (simp add: ensure_lookup)
  have "distinct (map fst (AList.update ?k (cb x (entry_or_false d ?k) ?k) (ensure ?k d)))"
    using Cons.prems by (simp add: AList.distinct_update ensure_distinct)
  from Cons.IH [OF this] show ?case by (simp add: p Let_def l)
qed

lemma display_block_from_empty:
  assumes "selected_issues (fst r) = []"
  shows "fresh_selection inp (fst (display_block inp r))"
proof (cases "vulnerability_report (fst r) = []")
  case True
  then show ?thesis using assms by (simp add: display_block_def fresh_selection_def)
next
  case False
  from parse_total [of "vulnerability_report (fst r)"] obtain issues where
    p: "parse_vulnerabilities (vulnerability_report (fst r)) = Inr issues" by blast
  from checkbox_loop_issues [of "checkbox inp" issues "[]"] obtain d' where
    h: "checkbox_loop (checkbox inp) (enumerate_list issues) [] = (None, d')
      \<and> (\<forall>i < length issues. map_of d' (checkbox_key i)
             = Some (checkbox inp (issues ! i) (entry_or_false [] (checkbox_key i)) (checkbox_key i)))
      \<and> (\<forall>k. k \<notin> checkbox_key ` {..< length issues} \<longrightarrow> map_of d' k = map_of [] k)" ..
  note run = h [THEN conjunct1]
  note vals = h [THEN conjunct2, THEN conjunct1]
  from checkbox_loop_keys [OF run] have keys: "fst ` set d' = checkbox_key ` {..< length issues}"
    by simp
  have dist: "distinct (map fst d')"
    using checkbox_loop_distinct [of "[]" "checkbox inp" "enumerate_list issues"] run by simp
  have st: "fst (display_block inp r) = (fst r)\<lparr>selected_issues := d'\<rparr>"
    using False p run assms by (simp add: display_block_def Let_def)
  have "\<exists>i. i < length issues \<and> k = checkbox_key i
           \<and> v = checkbox inp (issues ! i) False k" if kv: "(k, v) \<in> set d'" for k v
  proof -
    from kv have "k \<in> fst ` set d'" by (rule rev_image_eqI) simp
    with keys obtain i where i: "i < length issues" "k = checkbox_key i" by auto
    from kv dist have "map_of d' k = Some v" by (rule map_of_is_SomeI [rotated])
    with vals i have "v = checkbox inp (issues ! i) False k"
      by (simp add: entry_or_false_def)
    with i show ?thesis by blast
  qed
  then show ?thesis using p by (simp add: fresh_selection_def st)
qed

lemma scan_block_clears:
  "scan_starts inp s \<Longrightarrow> selected_issues (fst (scan_block inp (s, e))) = []"
  by (simp add: scan_starts_def scan_block_def Let_def raise_def save_if_user_fst
      split: sum.splits)

lemma fresh_selection_resolve:
  "fresh_selection inp (fst r) \<Longrightarrow> fresh_selection inp (fst (resolve_block inp r))"
  by (simp add: fresh_selection_def resolve_block_report resolve_block_selected)

lemma main_fresh_selection:
  assumes "scan_starts inp s" and home: "option_menu inp = Home"
  shows "fresh_selection inp (fst (main inp s))"
proof -
  let ?a = "scan_block inp (s, no_effects)"
  let ?b = "then_block (display_block inp) ?a"
  have a: "selected_issues (fst ?a) = []" using assms(1) by (rule scan_block_clears)
  have b: "fresh_selection inp (fst ?b)"
  proof (cases "running ?a")
    case True
    then show ?thesis using display_block_from_empty [OF a] by (simp add: then_block_def)
  next
    case False
    then show ?thesis using a by (simp add: then_block_def fresh_selection_def)
  qed
  show ?thesis
    using b fresh_selection_resolve [OF b]
    by (simp add: main_home [OF home] then_block_def [of "resolve_block inp"])
qed

lemma scan_starts_callback: "scan_starts inp (update_issues_selected s) = scan_starts inp s"
  by (simp add: scan_starts_def update_issues_selected_def Let_def)

text \<open>
  Claim C5. When a run of the script scans (the button was clicked or no scan is complete,
  and the code and the title are given), the scan block empties the selection before it
  calls the scanner, whatever the scanner and the save then do; and after the whole
  interaction every entry of the selection belongs to an issue of the report the session
  now holds, with the value its checkbox returned for the default False. No key and no
  value of the previous report is left.
\<close>

theorem new_scan_resets_selection:
  assumes "scan_starts inp s"
  shows "selected_issues (fst (scan_block inp (s, e))) = []
         \<and> (option_menu inp = Home \<longrightarrow>
              (\<forall>k v. (k, v) \<in> set (selected_issues (fst (interaction changed inp s))) \<longrightarrow>
                 (\<exists>issues i.
                    parse_vulnerabilities
                      (vulnerability_report (fst (interaction changed inp s))) = Inr issues
                    \<and> i < length issues \<and> k = checkbox_key i
                    \<and> v = checkbox inp (issues ! i) False k)))"
proof (intro conjI impI)
  show "selected_issues (fst (scan_block inp (s, e))) = []"
    using assms by (rule scan_block_clears)
next
  assume home: "option_menu inp = Home"
  have "fresh_selection inp (fst (interaction changed inp s))"
  proof (cases changed)
    case True
    from assms have "scan_starts inp (update_issues_selected s)"
      by (simp only: scan_starts_callback)
    from main_fresh_selection [OF this home] True show ?thesis by (simp add: interaction_def)
  next
    case False
    from main_fresh_selection [OF assms home] False show ?thesis by (simp add: interaction_def)
  qed
  then show "\<forall>k v. (k, v) \<in> set (selected_issues (fst (interaction changed inp s))) \<longrightarrow>
                 (\<exists>issues i.
                    parse_vulnerabilities
                      (vulnerability_report (fst (interaction changed inp s))) = Inr issues
                    \<and> i < length issues \<and> k = checkbox_key i
                    \<and> v = checkbox inp (issues ! i) False k)"
    by (simp only: fresh_selection_def)
qed

section \<open>Runs of the concrete session\<close>

lemma parse_report_two: "parse_vulnerabilities report_two = Inr issues_two"
  by code_simp

lemma parse_report_clean: "parse_vulnerabilities report_clean = Inr []"
  by code_simp

lemma report_two_nonempty: "report_two \<noteq> []"
  by (simp add: report_two_def)

lemma failing_inputs_raise:
  "\<forall>code text. \<exists>err. rewrite_code_with_openai failing_inputs code text = Inl err"
  by (simp add: failing_inputs_def)

lemma key0: "checkbox_key 0 = ''issue_0''" "checkbox_key (Suc 0) = ''issue_1''"
  by (simp_all add: checkbox_key_def str_nat_small digit_def)

lemma enumerate_issues_two: "enumerate_list issues_two = [(0, issues_two ! 0), (1, issues_two ! 1)]"
  by (simp add: enumerate_list_def issues_two_def upt_rec)

text \<open>
  The run itself: the click reaches the collaborator with the text of the first issue, the
  error ends the run, and the session state is the one the run started from.
\<close>

lemma failed_run:
  "main failing_inputs selected_state =
     (selected_state,
      no_effects\<lparr>raised := Some (CollaboratorError ''rewrite''), issues_shown := issues_two,
        resolve_button_shown := True,
        rewrite_calls := [(''exec(x)'', issues_two ! 0)]\<rparr>)"
  by (simp add: main_def then_block_def running_def scan_block_def display_block_def
      result_block_def resolve_block_def selected_issues_text_def raise_def Let_def
      failing_inputs_def idle_inputs_def selected_state_def logged_in_state_def session_vars_def
      no_effects_def parse_report_two report_two_nonempty enumerate_issues_two key0 ensure_def)

text \<open>
  The run itself: the collaborator receives the two issue texts in index order, joined by
  a newline, although the second issue was ticked first.
\<close>

lemma resolve_run:
  "main resolve_inputs both_selected_state =
     (both_selected_state\<lparr>fixed_code := ''pass'', issue_resolved := True\<rparr>,
      no_effects\<lparr>issues_shown := issues_two, resolve_button_shown := True,
        rewrite_calls := [(''exec(x)'', issues_two ! 0 @ ''\<newline>'' @ issues_two ! 1)],
        save_calls := [(1, ''t'', ''exec(x)'', Some ''pass'')],
        result_shown := Some (''pass'', report_two)\<rparr>)"
  by (simp add: main_def then_block_def running_def scan_block_def display_block_def
      result_block_def resolve_block_def selected_issues_text_def raise_def save_if_user_def Let_def
      resolve_inputs_def idle_inputs_def both_selected_state_def selected_state_def
      logged_in_state_def session_vars_def
      no_effects_def parse_report_two report_two_nonempty enumerate_issues_two key0 ensure_def)

lemma scan_starts_stale: "scan_starts scan_inputs stale_state"
  by (simp add: scan_starts_def scan_inputs_def idle_inputs_def)

lemmas run_defs = main_def interaction_def then_block_def running_def scan_block_def display_block_def
      result_block_def
      resolve_block_def selected_issues_text_def raise_def save_if_user_def Let_def
      update_issues_selected_def any_values_def
      idle_inputs_def logged_in_state_def session_vars_def
      no_effects_def parse_report_two report_two_nonempty enumerate_issues_two key0 ensure_def

lemma report_clean_nonempty: "report_clean \<noteq> []"
  by (simp add: report_clean_def)

lemma enumerate_list_Nil: "enumerate_list [] = []"
  by (simp add: enumerate_list_def)

text \<open>
  The run itself: the entry \<open>issue_5\<close> is gone and both issues of the new report read
  False.
\<close>

lemma rescan_run:
  "interaction False scan_inputs stale_state =
     (stale_state\<lparr>selected_issues := [(''issue_0'', False), (''issue_1'', False)],
        issue_resolved := False\<rparr>,
      no_effects\<lparr>issues_shown := issues_two, resolve_button_shown := True,
        save_calls := [(1, ''t'', ''exec(x)'', None)]\<rparr>)"
  by (simp add: run_defs scan_inputs_def stale_state_def selected_state_def)

text \<open>The four interactions after login, one by one.\<close>

lemma run_1_eq:
  "run_1 =
     (logged_in_state\<lparr>vulnerability_report := report_two, last_user_code := ''exec(x)'',
        selected_issues := [(''issue_0'', False), (''issue_1'', False)],
        scan_complete := True\<rparr>,
      no_effects\<lparr>issues_shown := issues_two, save_calls := [(1, ''t'', ''exec(x)'', None)]\<rparr>)"
  by (simp add: run_1_def run_defs scan_inputs_def)

lemma run_2_eq:
  "run_2 =
     (logged_in_state\<lparr>vulnerability_report := report_two, last_user_code := ''exec(x)'',
        selected_issues := [(''issue_0'', True), (''issue_1'', False)],
        scan_complete := True\<rparr>,
      no_effects\<lparr>issues_shown := issues_two\<rparr>)"
  by (simp add: run_2_def run_1_eq run_defs tick_first_inputs_def)

lemma run_3_eq:
  "run_3 =
     (logged_in_state\<lparr>vulnerability_report := report_two, last_user_code := ''exec(x)'',
        selected_issues := [(''issue_0'', True), (''issue_1'', True)],
        issues_selected := True, show_resolve_button := True,
        scan_complete := True\<rparr>,
      no_effects\<lparr>issues_shown := issues_two, resolve_button_shown := True\<rparr>)"
  by (simp add: run_3_def run_2_eq run_defs tick_second_inputs_def)

lemma run_4_eq:
  "run_4 =
     (logged_in_state\<lparr>vulnerability_report := report_clean, last_user_code := ''exec(x)'',
        selected_issues := [],
        issues_selected := True, show_resolve_button := True,
        scan_complete := True\<rparr>,
      no_effects\<lparr>resolve_button_shown := True, save_calls := [(1, ''t'', ''exec(x)'', None)]\<rparr>)"
  by (simp add: run_4_def run_3_eq run_defs clean_scan_inputs_def parse_report_clean
      report_clean_nonempty enumerate_list_Nil)

text \<open>
  Claim C1. The resolve button is shown when \<open>show_resolve_button\<close> and
  \<open>issues_selected\<close> hold, and both are written by the checkbox callback only. After the
  new scan of the fourth interaction the selection is empty and the button is shown; after
  the tick of the second interaction an issue is selected and the button is not shown.
\<close>

theorem resolve_button_follows_stale_flags:
  "resolve_button_shown (snd run_4) \<and> \<not> any_values (selected_issues (fst run_4))
   \<and> \<not> resolve_button_shown (snd run_2) \<and> any_values (selected_issues (fst run_2))"
  by (simp add: run_4_eq run_2_eq any_values_def no_effects_def)

section \<open>The theorems at the concrete session\<close>

text \<open>
  The theorem of claim C9 at a selection with the one entry \<open>issue_0\<close> (set) and a render
  of two issues: the key without an entry reads False and the entry that was there keeps
  its value.
\<close>

theorem ensure_defaults_without_clobbering_witness:
  "map_of (ensure ''issue_1'' [(''issue_0'', True)]) ''issue_1'' = Some False
   \<and> map_of (ensure ''issue_0'' [(''issue_0'', True)]) ''issue_0'' = Some True
   \<and> map_of (ensure ''issue_1'' [(''issue_0'', True)]) ''issue_0'' = Some True
   \<and> (\<exists>d'. checkbox_loop (\<lambda>label value key. value) (enumerate_list [''a'', ''b''])
              [(''issue_0'', True)] = (None, d')
         \<and> map_of d' ''issue_0'' = Some True \<and> map_of d' ''issue_1'' = Some False)"
proof -
  note a = ensure_defaults_without_clobbering
    [of "[(''issue_0'', True)]" "''issue_1''" "\<lambda>label value key. value" "[''a'', ''b'']"]
  note b = ensure_defaults_without_clobbering
    [of "[(''issue_0'', True)]" "''issue_0''" "\<lambda>label value key. value" "[''a'', ''b'']"]
  have 1: "map_of (ensure ''issue_1'' [(''issue_0'', True)]) ''issue_1'' = Some False"
    by (rule a [THEN conjunct1, rule_format]) simp
  have 2: "map_of (ensure ''issue_0'' [(''issue_0'', True)]) ''issue_0'' = Some True"
    by (rule b [THEN conjunct2, THEN conjunct1, rule_format]) simp
  have "map_of (ensure ''issue_1'' [(''issue_0'', True)]) ''issue_0''
      = map_of [(''issue_0'', True)] ''issue_0''"
    by (rule a [THEN conjunct2, THEN conjunct2, THEN conjunct1, rule_format]) simp
  then have 3: "map_of (ensure ''issue_1'' [(''issue_0'', True)]) ''issue_0'' = Some True"
    by simp
  from a obtain d' where
    run: "checkbox_loop (\<lambda>label value key. value) (enumerate_list [''a'', ''b''])
              [(''issue_0'', True)] = (None, d')"
    and v: "\<forall>i < length [''a'', ''b''].
               (map_of [(''issue_0'', True)] (checkbox_key i) = None \<longrightarrow>
                  map_of d' (checkbox_key i) = Some False)
               \<and> (\<forall>v. map_of [(''issue_0'', True)] (checkbox_key i) = Some v \<longrightarrow>
                      map_of d' (checkbox_key i) = Some v)"
    by (elim conjE exE)
  have 4: "map_of d' ''issue_0'' = Some True"
    using v [rule_format, of 0, THEN conjunct2, rule_format, of True] by (simp add: key0)
  have 5: "map_of d' ''issue_1'' = Some False"
    using v [rule_format, of 1, THEN conjunct1, rule_format] by (simp add: key0)
  from run 4 5 have "\<exists>d'. checkbox_loop (\<lambda>label value key. value) (enumerate_list [''a'', ''b''])
              [(''issue_0'', True)] = (None, d')
         \<and> map_of d' ''issue_0'' = Some True \<and> map_of d' ''issue_1'' = Some False"
    by (intro exI conjI)
  with 1 2 3 show ?thesis by (intro conjI)
qed


text \<open>
  The theorem of claim C7 at a rewrite collaborator that always raises and a session with
  the first of two issues selected.
\<close>

theorem failed_rewrite_is_atomic_witness:
  "(\<forall>code instr. \<exists>err. rewrite_code_with_openai failing_inputs code instr = Inl err)
   \<and> fst (resolve_block failing_inputs (selected_state, no_effects)) = selected_state
   \<and> save_calls (snd (resolve_block failing_inputs (selected_state, no_effects))) = []
   \<and> raised (snd (resolve_block failing_inputs (selected_state, no_effects))) \<noteq> None
   \<and> fixed_code (fst (main failing_inputs selected_state)) = []
   \<and> \<not> issue_resolved (fst (main failing_inputs selected_state))
   \<and> list_all (\<lambda>row. snd (snd (snd row)) = None)
        (save_calls (snd (main failing_inputs selected_state)))"
proof -
  note t = failed_rewrite_is_atomic
    [OF failing_inputs_raise, of "(selected_state, no_effects)" selected_state]
  have 1: "fst (resolve_block failing_inputs (selected_state, no_effects)) = selected_state"
    using t [THEN conjunct1] by simp
  have 2: "save_calls (snd (resolve_block failing_inputs (selected_state, no_effects))) = []"
    using t [THEN conjunct2, THEN conjunct1] by (simp add: no_effects_def)
  have "rewrite_calls (snd (resolve_block failing_inputs (selected_state, no_effects)))
      \<noteq> rewrite_calls (snd (selected_state, no_effects))"
    by (simp add: run_defs failing_inputs_def selected_state_def)
  with t [THEN conjunct2, THEN conjunct2, THEN conjunct1]
  have 3: "raised (snd (resolve_block failing_inputs (selected_state, no_effects))) \<noteq> None"
    by (rule mp)
  have 4: "fixed_code (fst (main failing_inputs selected_state)) = []"
    using t [THEN conjunct2, THEN conjunct2, THEN conjunct2, THEN conjunct1]
    by (simp add: selected_state_def logged_in_state_def session_vars_def)
  have "\<not> issue_resolved selected_state"
    by (simp add: selected_state_def logged_in_state_def session_vars_def)
  with t [THEN conjunct2, THEN conjunct2, THEN conjunct2, THEN conjunct2, THEN conjunct1]
  have 5: "\<not> issue_resolved (fst (main failing_inputs selected_state))"
    by blast
  have 6: "list_all (\<lambda>row. snd (snd (snd row)) = None)
        (save_calls (snd (main failing_inputs selected_state)))"
    using t [THEN conjunct2, THEN conjunct2, THEN conjunct2, THEN conjunct2, THEN conjunct2]
    by (simp only: list_all_iff)
  from failing_inputs_raise 1 2 3 4 5 6 show ?thesis by (intro conjI)
qed

lemma both_selected_text:
  "selected_issues_text both_selected_state = Inr (issues_two ! 0 @ ''\<newline>'' @ issues_two ! 1)"
  by (simp add: run_defs both_selected_state_def selected_state_def)

text \<open>
  The theorem of claim C6 at the session with both issues selected and a click on resolve.
\<close>

theorem instructions_are_selected_issues_in_order_witness:
  "selected_issues_text both_selected_state
      = Inr (issues_two ! 0 @ ''\<newline>'' @ issues_two ! 1)
   \<and> (\<exists>issues. parse_vulnerabilities (vulnerability_report both_selected_state) = Inr issues
         \<and> issues_two ! 0 @ ''\<newline>'' @ issues_two ! 1
             = join ''\<newline>'' (map (\<lambda>i. issues ! i)
              (filter (\<lambda>i. map_of (selected_issues both_selected_state) (checkbox_key i)
                             = Some True)
                 [0 ..< length issues])))
   \<and> selected_issues_text both_selected_state
        = Inr (instructions (selected_issues both_selected_state) issues_two)
   \<and> rewrite_calls (snd (main resolve_inputs both_selected_state))
        = [(''exec(x)'', issues_two ! 0 @ ''\<newline>'' @ issues_two ! 1)]
   \<and> sorted (selected_indices [(''issue_1'', True), (''issue_0'', True)] 2)
   \<and> distinct (selected_indices [(''issue_1'', True), (''issue_0'', True)] 2)"
proof -
  note t = instructions_are_selected_issues_in_order
    [of both_selected_state "issues_two ! 0 @ ''\<newline>'' @ issues_two ! 1" resolve_inputs
       "[(''issue_1'', True), (''issue_0'', True)]" 2]
  note 1 = both_selected_text
  from t [THEN conjunct1] 1
  have 2: "\<exists>issues. parse_vulnerabilities (vulnerability_report both_selected_state) = Inr issues
         \<and> issues_two ! 0 @ ''\<newline>'' @ issues_two ! 1
             = join ''\<newline>'' (map (\<lambda>i. issues ! i)
              (filter (\<lambda>i. map_of (selected_issues both_selected_state) (checkbox_key i)
                             = Some True)
                 [0 ..< length issues]))"
    by (rule mp)
  have "parse_vulnerabilities (vulnerability_report both_selected_state) = Inr issues_two
      \<and> (\<forall>i < length issues_two.
            map_of (selected_issues both_selected_state) (checkbox_key i) \<noteq> None)"
    by (auto simp: both_selected_state_def selected_state_def parse_report_two issues_two_def
        less_Suc_eq key0)
  with t [THEN conjunct2, THEN conjunct1, rule_format, of issues_two]
  have 3: "selected_issues_text both_selected_state
        = Inr (instructions (selected_issues both_selected_state) issues_two)"
    by blast
  have 4: "rewrite_calls (snd (main resolve_inputs both_selected_state))
        = [(''exec(x)'', issues_two ! 0 @ ''\<newline>'' @ issues_two ! 1)]"
    by (simp add: resolve_run no_effects_def)
  note 5 = t [THEN conjunct2, THEN conjunct2, THEN conjunct2, THEN conjunct1]
  note 6 = t [THEN conjunct2, THEN conjunct2, THEN conjunct2, THEN conjunct2]
  from 1 2 3 4 5 6 show ?thesis by (intro conjI)
qed

text \<open>
  The theorem of claim C5 at a click on the scan button in the session with a stale entry.
\<close>

theorem new_scan_resets_selection_witness:
  "scan_starts scan_inputs stale_state \<and> option_menu scan_inputs = Home
   \<and> selected_issues (fst (scan_block scan_inputs (stale_state, no_effects))) = []
   \<and> (''issue_1'', False)
        \<in> set (selected_issues (fst (interaction False scan_inputs stale_state)))
   \<and> (\<exists>issues i.
         parse_vulnerabilities
           (vulnerability_report (fst (interaction False scan_inputs stale_state))) = Inr issues
         \<and> i < length issues \<and> ''issue_1'' = checkbox_key i
         \<and> False = checkbox scan_inputs (issues ! i) False ''issue_1'')
   \<and> ''issue_5'' \<notin> fst ` set (selected_issues (fst (interaction False scan_inputs stale_state)))"
proof -
  note t = new_scan_resets_selection [OF scan_starts_stale, of no_effects False]
  have home: "option_menu scan_inputs = Home"
    by (simp add: scan_inputs_def idle_inputs_def)
  have mem: "(''issue_1'', False)
        \<in> set (selected_issues (fst (interaction False scan_inputs stale_state)))"
    by (simp add: rescan_run)
  have gone: "''issue_5'' \<notin> fst ` set (selected_issues (fst (interaction False scan_inputs stale_state)))"
    by (simp add: rescan_run)
  from t [THEN conjunct2, rule_format, OF home mem]
  have ex: "\<exists>issues i.
         parse_vulnerabilities
           (vulnerability_report (fst (interaction False scan_inputs stale_state))) = Inr issues
         \<and> i < length issues \<and> ''issue_1'' = checkbox_key i
         \<and> False = checkbox scan_inputs (issues ! i) False ''issue_1''" .
  from scan_starts_stale home t [THEN conjunct1] mem ex gone show ?thesis by (intro conjI)
qed

section \<open>The matcher against the language of the pattern\<close>

lemma takeWhile_spaces:
  "list_all is_space w \<Longrightarrow> takeWhile is_space (w @ x) = w @ takeWhile is_space x"
  by (simp add: list_all_iff takeWhile_append2)

lemma first_some_not_None: "k \<in> set ks \<Longrightarrow> f k \<noteq> None \<Longrightarrow> first_some f ks \<noteq> None"
  by (auto simp: first_some_None_iff)

lemma match_complete:
  "in_lang ps u \<Longrightarrow> match_here ps (u @ v) \<noteq> None"
proof (induction ps arbitrary: u)
  case Nil
  then show ?case by simp
next
  case (Cons p ps)
  show ?case
  proof (cases p)
    case (Lit l)
    with Cons.prems obtain u' where u: "u = l @ u'" and l: "in_lang ps u'" by auto
    from Cons.IH [OF l] show ?thesis by (simp add: Lit u)
  next
    case Group_lazy
    with Cons.prems obtain g u' where u: "u = g @ u'" and l: "in_lang ps u'" by auto
    from Cons.IH [OF l] obtain res where "match_here ps (u' @ v) = Some res" by auto
    then have f: "(case match_here ps (drop (length g) (u @ v)) of None \<Rightarrow> None
        | Some (gs, r) \<Rightarrow> Some (take (length g) (u @ v) # gs, r)) \<noteq> None"
      by (cases res) (simp add: u)
    have k: "length g \<in> set [0 ..< Suc (length (u @ v))]" by (simp add: u)
    show ?thesis
      unfolding Group_lazy match_here.simps by (rule first_some_not_None [OF k]) (rule f)
  next
    case Space_plus
    with Cons.prems obtain w u' where u: "u = w @ u'" and w: "w \<noteq> []" "list_all is_space w"
      and l: "in_lang ps u'" by auto
    from Cons.IH [OF l] have m: "match_here ps (drop (length w) (u @ v)) \<noteq> None"
      by (simp add: u)
    have "takeWhile is_space (u @ v) = w @ takeWhile is_space (u' @ v)"
      using takeWhile_spaces [OF w(2), of "u' @ v"] by (simp add: u)
    then have "length w \<le> length (takeWhile is_space (u @ v))" by simp
    moreover have "1 \<le> length w" using w(1) by (cases w) simp_all
    ultimately have k: "length w \<in> set (rev [1 ..< Suc (length (takeWhile is_space (u @ v)))])"
      by auto
    show ?thesis
      unfolding Space_plus match_here.simps by (rule first_some_not_None [OF k]) (rule m)
  qed
qed

lemma match_sound:
  "match_here ps s = Some (gs, r) \<Longrightarrow> \<exists>u. s = u @ r \<and> in_lang ps u"
proof (induction ps arbitrary: s gs)
  case Nil
  then show ?case by simp
next
  case (Cons p ps)
  show ?case
  proof (cases p)
    case (Lit l)
    with Cons.prems have m: "match_here ps (drop (length l) s) = Some (gs, r)"
      and t: "take (length l) s = l"
      by (auto split: if_splits)
    from Cons.IH [OF m] obtain u where u: "drop (length l) s = u @ r" "in_lang ps u" by blast
    have "s = take (length l) s @ drop (length l) s" by simp
    with t u(1) have "s = (l @ u) @ r" by simp
    moreover have "in_lang (p # ps) (l @ u)" using u(2) by (simp add: Lit)
    ultimately show ?thesis by blast
  next
    case Group_lazy
    with Cons.prems obtain k where
      "(case match_here ps (drop k s) of None \<Rightarrow> None
        | Some (gs, r) \<Rightarrow> Some (take k s # gs, r)) = Some (gs, r)"
      by (auto dest!: first_some_SomeD)
    then obtain gs' where m: "match_here ps (drop k s) = Some (gs', r)"
      by (auto split: option.splits)
    from Cons.IH [OF m] obtain u where u: "drop k s = u @ r" "in_lang ps u" by blast
    have "s = take k s @ drop k s" by simp
    with u(1) have "s = (take k s @ u) @ r" by simp
    moreover have "in_lang (p # ps) (take k s @ u)" using u(2) by (auto simp: Group_lazy)
    ultimately show ?thesis by blast
  next
    case Space_plus
    with Cons.prems have "first_some (\<lambda>k. match_here ps (drop k s))
        (rev [1 ..< Suc (length (takeWhile is_space s))]) = Some (gs, r)"
      by simp
    from first_some_SomeD [OF this]
    obtain k where k: "k \<in> set (rev [1 ..< Suc (length (takeWhile is_space s))])"
      and m: "match_here ps (drop k s) = Some (gs, r)"
      by (elim bexE)
    from Cons.IH [OF m] obtain u where u: "drop k s = u @ r" "in_lang ps u" by blast
    from k have k1: "1 \<le> k" and k2: "k \<le> length (takeWhile is_space s)" by auto
    have "length (takeWhile is_space s) \<le> length s" by (rule length_takeWhile_le)
    with k1 k2 have ne: "take k s \<noteq> []" by auto
    have "take k s = take k (takeWhile is_space s @ dropWhile is_space s)" by simp
    also have "\<dots> = take k (takeWhile is_space s)" using k2 by (simp only: take_append) simp
    finally have "set (take k s) \<subseteq> set (takeWhile is_space s)" by (metis set_take_subset)
    then have sp: "list_all is_space (take k s)"
      by (auto simp: list_all_iff dest: set_takeWhileD)
    have "s = take k s @ drop k s" by simp
    with u(1) have "s = (take k s @ u) @ r" by simp
    moreover have "in_lang (p # ps) (take k s @ u)"
      unfolding Space_plus in_lang.simps
      using u(2) ne sp by (intro exI [of _ "take k s"] exI [of _ u]) simp
    ultimately show ?thesis by blast
  qed
qed

lemma dead_Nil: "dead ps [] \<longleftrightarrow> match_here ps [] = None"
  by (simp add: dead_def)

lemma dead_Cons: "dead ps (c # s) \<longleftrightarrow> match_here ps (c # s) = None \<and> dead ps s"
proof
  assume d: "dead ps (c # s)"
  have "match_here ps (drop 0 (c # s)) = None" using d unfolding dead_def by blast
  moreover have "match_here ps (drop k s) = None" for k
    using d [unfolded dead_def, rule_format, of "Suc k"] by simp
  ultimately show "match_here ps (c # s) = None \<and> dead ps s" by (simp add: dead_def)
next
  assume a: "match_here ps (c # s) = None \<and> dead ps s"
  show "dead ps (c # s)"
    unfolding dead_def
  proof
    fix k show "match_here ps (drop k (c # s)) = None"
      using a by (cases k) (simp_all add: dead_def)
  qed
qed

lemma findall_dead: "findall s = [] \<longleftrightarrow> dead issue_pattern s"
proof (induction s)
  case Nil
  then show ?case by (simp add: dead_Nil issue_pattern_def)
next
  case (Cons c s)
  show ?case
  proof (cases "match_here issue_pattern (c # s)")
    case None
    then show ?thesis using Cons by (simp add: findall_None_Cons dead_Cons)
  next
    case (Some a)
    obtain g r where a: "a = (g, r)" by (cases a)
    from Some a have "findall (c # s) = g # findall r" by (simp add: findall_Some)
    with Some show ?thesis by (simp add: dead_Cons)
  qed
qed

lemma occurrence_iff: "has_occurrence r \<longleftrightarrow> \<not> dead issue_pattern r"
proof
  assume "has_occurrence r"
  then obtain pre u post where r: "r = pre @ u @ post" and l: "in_lang issue_pattern u"
    unfolding has_occurrence_def by blast
  from match_complete [OF l, of post] have "match_here issue_pattern (drop (length pre) r) \<noteq> None"
    by (simp add: r)
  then show "\<not> dead issue_pattern r" by (auto simp: dead_def)
next
  assume "\<not> dead issue_pattern r"
  then obtain k a where "match_here issue_pattern (drop k r) = Some a"
    unfolding dead_def by auto
  then obtain gs rest where m: "match_here issue_pattern (drop k r) = Some (gs, rest)"
    by (cases a) auto
  from match_sound [OF m] obtain u where u: "drop k r = u @ rest" "in_lang issue_pattern u"
    by blast
  have "r = take k r @ drop k r" by simp
  with u(1) have "r = take k r @ u @ rest" by simp
  with u(2) show "has_occurrence r" unfolding has_occurrence_def by blast
qed

text \<open>
  Claim C8. For every report the parser returns a list, one text for each match that
  \<open>findall\<close> finds, and never an error; the list is empty exactly when no part of the
  report is an occurrence of the issue pattern, which is the case of a clean scan and of
  any malformed report.
\<close>

theorem parse_never_fails:
  "(\<exists>issues. parse_vulnerabilities r = Inr issues \<and> length issues = length (findall r))
   \<and> (parse_vulnerabilities r = Inr [] \<longleftrightarrow> \<not> has_occurrence r)"
proof
  show "\<exists>issues. parse_vulnerabilities r = Inr issues \<and> length issues = length (findall r)"
    by (rule parse_total)
next
  from parse_total [of r] obtain issues where
    p: "parse_vulnerabilities r = Inr issues" and n: "length issues = length (findall r)"
    by blast
  have "parse_vulnerabilities r = Inr [] \<longleftrightarrow> findall r = []"
    using p n by auto
  then show "parse_vulnerabilities r = Inr [] \<longleftrightarrow> \<not> has_occurrence r"
    by (simp add: findall_dead occurrence_iff)
qed

section \<open>Steps of the matcher\<close>


lemma lit_fail_Nil: "l \<noteq> [] \<Longrightarrow> match_here (Lit l # ps) [] = None"
  by simp


lemma space_fail_Nil: "match_here (Space_plus # ps) [] = None"
  by simp









section \<open>Reports of well-formed blocks\<close>


















section \<open>A last block without its newline\<close>









end
